theory Spec2Isabelle
  imports Main "HOL-Library.Word"
begin

unbundle bit_operations_syntax

section \<open>Protocol constants (src/constants.js)\<close>

text \<open>
  A Node.js \<open>Buffer\<close> is a sequence of bytes: a list of 8-bit words. The results of
  JavaScript's bitwise operators are 32-bit integers: 32-bit words. Sequence numbers,
  counters and lengths are non-negative integers (\<open>nat\<close>); the signed sequence distance is
  an \<open>int\<close>. Wall-clock readings (\<open>Date.now()\<close>) only feed the \<open>timestamp\<close> and
  \<open>rtt\<close> fields of events and are left out of the model.
\<close>

type_synonym byte = "8 word"
type_synonym buffer = "byte list"
type_synonym int32 = "32 word"

definition FLAG :: byte where "FLAG = 0x7e"
definition ESC :: byte where "ESC = 0x7d"

text \<open>The members of \<open>FrameType\<close>; a control field is one byte, so a number from 0 on.\<close>

definition DATA :: nat where "DATA = 0x01"
definition ACK :: nat where "ACK = 0x02"
definition NAK :: nat where "NAK = 0x03"
definition CONN :: nat where "CONN = 0x04"
definition CONN_ACK :: nat where "CONN_ACK = 0x05"
definition DISC :: nat where "DISC = 0x06"
definition DISC_ACK :: nat where "DISC_ACK = 0x07"
definition HEARTBEAT :: nat where "HEARTBEAT = 0x08"

text \<open>\<open>Object.values(FrameType)\<close>, in declaration order.\<close>

definition FrameType_values :: "nat list" where
  "FrameType_values = [DATA, ACK, NAK, CONN, CONN_ACK, DISC, DISC_ACK, HEARTBEAT]"

definition WINDOW_SIZE :: nat where "WINDOW_SIZE = 8"
definition MAX_SEQ_NUM :: nat where "MAX_SEQ_NUM = 15"
definition MAX_RETRIES :: nat where "MAX_RETRIES = 3"
definition MAX_DATA :: nat where "MAX_DATA = 1024"
definition CRC_POLYNOMIAL :: int32 where "CRC_POLYNOMIAL = 0x1021"

text \<open>
  JavaScript's \<open>%\<close> on integers truncates towards zero: the result has the sign of the
  dividend.
\<close>

definition js_rem :: "int \<Rightarrow> int \<Rightarrow> int" where
  "js_rem a b = sgn a * (\<bar>a\<bar> mod \<bar>b\<bar>)"

text \<open>\<open>Utils.nextSeqNum\<close>: \<open>(seqNum + 1) % (MAX_SEQ_NUM + 1)\<close>, on a non-negative number.\<close>

definition nextSeqNum :: "nat \<Rightarrow> nat" where
  "nextSeqNum seqNum = (seqNum + 1) mod (MAX_SEQ_NUM + 1)"

text \<open>\<open>Utils.seqNumDiff\<close>: the distance from \<open>b\<close> to \<open>a\<close>, folded into \<open>-7..8\<close>.\<close>

definition seqNumDiff :: "nat \<Rightarrow> nat \<Rightarrow> int" where
  "seqNumDiff a b =
     (let diff = js_rem (int a - int b + int MAX_SEQ_NUM + 1) (int MAX_SEQ_NUM + 1)
      in if diff > (int MAX_SEQ_NUM + 1) div 2 then diff - (int MAX_SEQ_NUM + 1) else diff)"

section \<open>Bit stuffing (src/framing/bitStuffing.js)\<close>

text \<open>
  \<open>bitStuff\<close>: the \<open>for\<close> loop over the input, pushing onto \<open>result\<close>. The early return
  for an empty input gives the same empty buffer as the loop.
\<close>

fun bitStuff_loop :: "buffer \<Rightarrow> buffer \<Rightarrow> buffer" where
  "bitStuff_loop [] result = result"
| "bitStuff_loop (byte # rest) result =
     (if byte = FLAG then bitStuff_loop rest (result @ [ESC, 0x5e])
      else if byte = ESC then bitStuff_loop rest (result @ [ESC, 0x5d])
      else bitStuff_loop rest (result @ [byte]))"

definition bitStuff :: "buffer \<Rightarrow> buffer" where
  "bitStuff data = (if length data = 0 then [] else bitStuff_loop data [])"

datatype unstuff_error =
    IncompleteEscape
  | InvalidEscape byte
  | UnescapedFlag

text \<open>
  \<open>bitUnstuff\<close>: the \<open>while\<close> loop; the first argument is the input from index \<open>i\<close> on.
  An escape consumes two bytes, every other byte one.
\<close>

fun bitUnstuff_loop :: "buffer \<Rightarrow> buffer \<Rightarrow> unstuff_error + buffer" where
  "bitUnstuff_loop [] result = Inr result"
| "bitUnstuff_loop (byte # rest) result =
     (if byte = ESC then
        (case rest of
           [] \<Rightarrow> Inl IncompleteEscape
         | nextByte # rest' \<Rightarrow>
             if nextByte = 0x5e then bitUnstuff_loop rest' (result @ [FLAG])
             else if nextByte = 0x5d then bitUnstuff_loop rest' (result @ [ESC])
             else Inl (InvalidEscape nextByte))
      else if byte = FLAG then Inl UnescapedFlag
      else bitUnstuff_loop rest (result @ [byte]))"

definition bitUnstuff :: "buffer \<Rightarrow> unstuff_error + buffer" where
  "bitUnstuff stuffedData =
     (if length stuffedData = 0 then Inr [] else bitUnstuff_loop stuffedData [])"

section \<open>CRC-16-CCITT (src/errorControl/crc.js)\<close>

text \<open>
  One round of the inner loop of \<open>generateCrcTable\<close>: test bit 15, shift left, and
  XOR the polynomial in when the bit was set. The register is not masked inside the loop.
\<close>

definition crcTableStep :: "int32 \<Rightarrow> int32" where
  "crcTableStep crc =
     (if crc AND 0x8000 \<noteq> 0 then push_bit 1 crc XOR CRC_POLYNOMIAL else push_bit 1 crc)"

definition crcTableEntry :: "nat \<Rightarrow> int32" where
  "crcTableEntry i = ((crcTableStep ^^ 8) (push_bit 8 (of_nat i))) AND 0xffff"

definition generateCrcTable :: "int32 list" where
  "generateCrcTable = map crcTableEntry [0..<256]"

text \<open>
  \<open>calculate\<close>: the loop over the data, then the final inversion. \<open>>>\<close> is
  JavaScript's sign-propagating shift. Every call in the sources uses the default
  initial value \<open>0xFFFF\<close>.
\<close>

fun calculate_loop :: "buffer \<Rightarrow> int32 \<Rightarrow> int32" where
  "calculate_loop [] crc = crc"
| "calculate_loop (b # rest) crc =
     (let tableIndex = (signed_drop_bit 8 crc XOR ucast b) AND 0xff
      in calculate_loop rest
           ((push_bit 8 crc XOR generateCrcTable ! unat tableIndex) AND 0xffff))"

definition calculate_from :: "int32 \<Rightarrow> buffer \<Rightarrow> int32" where
  "calculate_from initialValue data = calculate_loop data initialValue XOR 0xffff"

definition calculate :: "buffer \<Rightarrow> int32" where
  "calculate data = calculate_from 0xffff data"

definition validate :: "buffer \<Rightarrow> int32 \<Rightarrow> bool" where
  "validate data receivedCrc = (calculate data = receivedCrc)"

text \<open>\<open>addCrc\<close>: the data, then the high byte and the low byte of the CRC.\<close>

definition addCrc :: "buffer \<Rightarrow> buffer" where
  "addCrc data =
     (let crc = calculate data
      in data @ [ucast (signed_drop_bit 8 crc AND 0xff), ucast (crc AND 0xff)])"

record crc_result =
  r_valid :: bool
  r_data :: buffer
  r_crc :: int32
  r_calculatedCrc :: "int32 option"

text \<open>
  \<open>extractAndValidate\<close>; the result for an input under two bytes carries no
  \<open>calculatedCrc\<close>.
\<close>

definition extractAndValidate :: "buffer \<Rightarrow> crc_result" where
  "extractAndValidate dataWithCrc =
     (if length dataWithCrc < 2 then
        \<lparr>r_valid = False, r_data = [], r_crc = 0, r_calculatedCrc = None\<rparr>
      else
        let dataLength = length dataWithCrc - 2;
            data = take dataLength dataWithCrc;
            receivedCrc = push_bit 8 (ucast (dataWithCrc ! dataLength))
                            OR ucast (dataWithCrc ! (dataLength + 1))
        in \<lparr>r_valid = validate data receivedCrc, r_data = data, r_crc = receivedCrc,
            r_calculatedCrc = Some (calculate data)\<rparr>)"

section \<open>Frame builder and parser (src/framing/frameBuilder.js)\<close>

datatype build_error =
    InvalidFrameType nat
  | InvalidSeqNum int
  | DataTooLarge nat

text \<open>
  \<open>buildFrame\<close> on a \<open>Buffer\<close> payload; each \<open>throw\<close> is an \<open>Inl\<close>. The frame
  counter, which only \<open>getStats\<close> reads, is left out.
\<close>

definition buildFrame :: "nat \<Rightarrow> int \<Rightarrow> buffer \<Rightarrow> build_error + buffer" where
  "buildFrame type seqNum data =
     (if type \<notin> set FrameType_values then Inl (InvalidFrameType type)
      else if seqNum < 0 \<or> seqNum > 15 then Inl (InvalidSeqNum seqNum)
      else if length data > MAX_DATA then Inl (DataTooLarge (length data))
      else
        let controlField = type;
            seqField = seqNum AND 0x0f;
            payload = [of_nat controlField, of_int seqField] @ data;
            payloadWithCrc = addCrc payload;
            stuffedPayload = bitStuff payloadWithCrc
        in Inr ([FLAG] @ stuffedPayload @ [FLAG]))"

record frame =
  f_type :: nat
  f_seqNum :: nat
  f_data :: buffer
  f_rawLength :: nat
  f_payloadLength :: nat
  f_crc :: int32

record parse_stats =
  originalSize :: nat
  stuffedSize :: nat
  finalSize :: nat
  overhead :: int

datatype parse_error =
    FrameTooSmall
  | BadFlags
  | UnstuffingFailed unstuff_error
  | PayloadTooSmall
  | CrcError "int32 option" int32
  | ValidatedPayloadTooSmall
  | UnknownFrameType nat

text \<open>
  \<open>parseFrame\<close>: each \<open>success: false\<close> result is an \<open>Inl\<close> naming the branch
  (\<open>CrcError\<close> is the one with \<open>crcError: true\<close>), the \<open>success: true\<close> result an
  \<open>Inr\<close> of the frame and the statistics. \<open>rawFrame.slice(1, -1)\<close> is the input
  without its first and last byte.
\<close>

definition parseFrame :: "buffer \<Rightarrow> parse_error + frame \<times> parse_stats" where
  "parseFrame rawFrame =
     (if length rawFrame < 4 then Inl FrameTooSmall
      else if rawFrame ! 0 \<noteq> FLAG \<or> rawFrame ! (length rawFrame - 1) \<noteq> FLAG
      then Inl BadFlags
      else
        let stuffedPayload = take (length rawFrame - 2) (drop 1 rawFrame)
        in case bitUnstuff stuffedPayload of
             Inl e \<Rightarrow> Inl (UnstuffingFailed e)
           | Inr payload \<Rightarrow>
               if length payload < 4 then Inl PayloadTooSmall
               else
                 let crcResult = extractAndValidate payload
                 in if \<not> r_valid crcResult
                    then Inl (CrcError (r_calculatedCrc crcResult) (r_crc crcResult))
                    else
                      let validPayload = r_data crcResult
                      in if length validPayload < 2 then Inl ValidatedPayloadTooSmall
                         else
                           let controlField = unat (validPayload ! 0);
                               seqField = unat (validPayload ! 1 AND 0x0f);
                               data = (if length validPayload > 2 then drop 2 validPayload
                                       else [])
                           in if controlField \<notin> set FrameType_values
                              then Inl (UnknownFrameType controlField)
                              else Inr (\<lparr>f_type = controlField, f_seqNum = seqField,
                                          f_data = data, f_rawLength = length rawFrame,
                                          f_payloadLength = length data,
                                          f_crc = r_crc crcResult\<rparr>,
                                        \<lparr>originalSize = length rawFrame,
                                          stuffedSize = length stuffedPayload,
                                          finalSize = length payload,
                                          overhead = int (length rawFrame)
                                                       - int (length data)\<rparr>))"

definition createDataFrame :: "nat \<Rightarrow> buffer \<Rightarrow> build_error + buffer" where
  "createDataFrame seqNum data = buildFrame DATA (int seqNum) data"


definition createNakFrame :: "nat \<Rightarrow> build_error + buffer" where
  "createNakFrame seqNum = buildFrame NAK (int seqNum) []"

section \<open>Sliding window (src/flowControl/windowManager.js)\<close>

text \<open>
  A JavaScript array cell: \<open>null\<close>, a stored object, or \<open>undefined\<close> (a hole, or any
  index past the end). Reading past the end gives \<open>undefined\<close>; writing past the end
  extends the array, leaving holes.
\<close>

datatype 'a cell = Undefined | Null | Filled 'a

definition js_get :: "'a cell list \<Rightarrow> nat \<Rightarrow> 'a cell" where
  "js_get xs i = (if i < length xs then xs ! i else Undefined)"

definition js_set :: "'a cell list \<Rightarrow> nat \<Rightarrow> 'a cell \<Rightarrow> 'a cell list" where
  "js_set xs i v =
     (if i < length xs then xs[i := v]
      else xs @ replicate (i - length xs) Undefined @ [v])"

fun filledCount :: "'a cell list \<Rightarrow> nat" where
  "filledCount [] = 0"
| "filledCount (Filled v # xs) = Suc (filledCount xs)"
| "filledCount (c # xs) = filledCount xs"

record wm_stats =
  framesSent :: nat
  framesReceived :: nat
  framesBuffered :: nat
  windowFullEvents :: nat
  outOfOrderFrames :: nat
  windowSlides :: nat

text \<open>The events the window manager emits, with their payload fields in source order.\<close>

datatype wm_event =
    WindowFull nat nat nat
  | FrameQueued nat nat int nat
  | WindowSlide nat nat nat int bool
  | FrameBuffered nat nat nat
  | FramesDelivered nat "nat option" "nat option" nat
  | WindowReset

text \<open>
  A window manager is an event emitter, and \<open>emit\<close> runs the listeners of the event
  before it returns. \<open>DataLinkLayer.setupEventListeners\<close> attaches two to the window
  manager it creates. The one on \<open>window_full\<close> only passes the event on and cannot
  throw. The one on \<open>frames_delivered\<close> is
  \<open>(data) => { for (const frame of data.frames) this.deliverToNetworkLayer(...) }\<close>;
  it is the listener \<open>DeliverToNetworkLayer\<close> below.
\<close>

datatype wm_listener = DeliverToNetworkLayer

record window_manager =
  w_sendBase :: nat
  w_nextSeqNum :: nat
  w_windowSize :: nat
  w_expectedSeqNum :: nat
  w_receiveBuffer :: "buffer cell list"
  w_receivedMask :: int32
  w_stats :: wm_stats
  w_congestionLevel :: nat
  w_events :: "wm_event list"
  w_framesDeliveredListeners :: "wm_listener list"

text \<open>The constructor: no listener is attached yet.\<close>

definition new_WindowManager :: window_manager where
  "new_WindowManager =
     \<lparr>w_sendBase = 0, w_nextSeqNum = 0, w_windowSize = WINDOW_SIZE,
      w_expectedSeqNum = 0, w_receiveBuffer = replicate 16 Null, w_receivedMask = 0,
      w_stats = \<lparr>framesSent = 0, framesReceived = 0, framesBuffered = 0,
                  windowFullEvents = 0, outOfOrderFrames = 0, windowSlides = 0\<rparr>,
      w_congestionLevel = 0, w_events = [], w_framesDeliveredListeners = []\<rparr>"

text \<open>
  \<open>emit\<close> of an event none of whose listeners can throw: the event is recorded.
\<close>

definition wm_emit :: "wm_event \<Rightarrow> window_manager \<Rightarrow> window_manager" where
  "wm_emit e wm = wm\<lparr>w_events := w_events wm @ [e]\<rparr>"

datatype js_error = TypeError

text \<open>
  Running the listeners of \<open>frames_delivered\<close> in the order they were attached. The
  payload of the event has the fields \<open>count\<close>, \<open>firstSeqNum\<close>, \<open>lastSeqNum\<close>,
  \<open>newExpectedSeqNum\<close> and \<open>timestamp\<close> and no \<open>frames\<close>: in
  \<open>DeliverToNetworkLayer\<close> the value of \<open>data.frames\<close> is \<open>undefined\<close>, and iterating
  it throws a \<open>TypeError\<close>, which leaves the later listeners unrun. \<open>None\<close> stands
  for a normal return.
\<close>

fun runFramesDeliveredListeners :: "wm_listener list \<Rightarrow> wm_event \<Rightarrow> js_error option" where
  "runFramesDeliveredListeners [] payload = None"
| "runFramesDeliveredListeners (DeliverToNetworkLayer # rest) payload = Some TypeError"

text \<open>
  \<open>this.emit('frames_delivered', payload)\<close>: an exception of a listener leaves
  \<open>emit\<close> as an exception, here an \<open>Inl\<close> with the state reached.
\<close>

definition emitFramesDelivered ::
  "wm_event \<Rightarrow> window_manager \<Rightarrow> js_error \<times> window_manager + window_manager" where
  "emitFramesDelivered payload wm =
     (let wm1 = wm_emit payload wm
      in case runFramesDeliveredListeners (w_framesDeliveredListeners wm1) payload of
           None \<Rightarrow> Inr wm1
         | Some e \<Rightarrow> Inl (e, wm1))"

definition canSend :: "window_manager \<Rightarrow> bool" where
  "canSend wm =
     (let outstanding = seqNumDiff (w_nextSeqNum wm) (w_sendBase wm)
      in outstanding < int (w_windowSize wm))"

text \<open>\<open>getNextSeqNum\<close>: \<open>None\<close> is the \<open>null\<close> returned when the window is full.\<close>

definition getNextSeqNum :: "window_manager \<Rightarrow> nat option \<times> window_manager" where
  "getNextSeqNum wm =
     (if \<not> canSend wm then
        (None,
         wm_emit (WindowFull (w_sendBase wm) (w_nextSeqNum wm) (w_windowSize wm))
           (wm\<lparr>w_stats := (w_stats wm)\<lparr>windowFullEvents :=
                                  windowFullEvents (w_stats wm) + 1\<rparr>\<rparr>))
      else
        let seqNum = w_nextSeqNum wm;
            wm1 = wm\<lparr>w_nextSeqNum := nextSeqNum (w_nextSeqNum wm)\<rparr>;
            wm2 = wm1\<lparr>w_stats := (w_stats wm1)\<lparr>framesSent :=
                                       framesSent (w_stats wm1) + 1\<rparr>\<rparr>
        in (Some seqNum,
            wm_emit (FrameQueued seqNum (w_sendBase wm2)
                       (seqNumDiff (w_nextSeqNum wm2) (w_sendBase wm2)) (w_windowSize wm2))
              wm2))"

text \<open>
  The three objects \<open>processAck\<close> returns: \<open>action\<close> is the constructor, the
  arguments are \<open>seqNum\<close>, \<open>sendBase\<close> (or \<open>oldBase\<close>, \<open>newBase\<close>,
  \<open>slidDistance\<close>), and \<open>windowSlid\<close> is read off the constructor.
\<close>

datatype ack_result =
    AckDuplicate nat nat
  | AckOutOfWindow nat nat
  | AckAccepted nat nat nat int

fun windowSlid :: "ack_result \<Rightarrow> bool" where
  "windowSlid (AckDuplicate _ _) = False"
| "windowSlid (AckOutOfWindow _ _) = False"
| "windowSlid (AckAccepted _ _ _ _) = True"

definition processAck :: "nat \<Rightarrow> window_manager \<Rightarrow> ack_result \<times> window_manager" where
  "processAck ackSeqNum wm =
     (let diff = seqNumDiff ackSeqNum (w_sendBase wm)
      in if diff < 0 then (AckDuplicate ackSeqNum (w_sendBase wm), wm)
         else if diff \<ge> int (w_windowSize wm)
         then (AckOutOfWindow ackSeqNum (w_sendBase wm), wm)
         else
           let oldBase = w_sendBase wm;
               wm1 = wm\<lparr>w_sendBase := nextSeqNum ackSeqNum\<rparr>;
               slidDistance = seqNumDiff (w_sendBase wm1) oldBase;
               wm2 = wm1\<lparr>w_stats := (w_stats wm1)\<lparr>windowSlides :=
                                          windowSlides (w_stats wm1) + 1\<rparr>\<rparr>;
               wm3 = wm_emit (WindowSlide oldBase (w_sendBase wm2) ackSeqNum slidDistance
                                (canSend wm2)) wm2
           in (AckAccepted ackSeqNum oldBase (w_sendBase wm3) slidDistance, wm3))"

text \<open>
  The four objects \<open>receiveFrame\<close> returns; a delivered frame is its sequence number
  and its payload.
\<close>

datatype receive_result =
    Duplicate nat nat
  | OutOfWindow nat nat
  | Buffered nat nat
  | Delivered "(nat \<times> buffer) list" nat

fun shouldAck :: "receive_result \<Rightarrow> bool" where
  "shouldAck (Duplicate _ _) = True"
| "shouldAck (OutOfWindow _ _) = False"
| "shouldAck (Buffered _ _) = False"
| "shouldAck (Delivered _ _) = True"

definition getBufferSize :: "window_manager \<Rightarrow> nat" where
  "getBufferSize wm =
     length (filter (\<lambda>i. js_get (w_receiveBuffer wm) i \<noteq> Null) [0..<16])"

text \<open>
  The \<open>while\<close> loop of \<open>deliverFramesInOrder\<close>. A cell that is not \<open>null\<close> is
  read as a stored frame; on \<open>undefined\<close> the property access throws, and the
  \<open>Inl\<close> carries the state reached. Every round clears one stored frame, which is why
  the loop ends.
\<close>

function deliverLoop ::
  "window_manager \<Rightarrow> (nat \<times> buffer) list
     \<Rightarrow> js_error \<times> window_manager + window_manager \<times> (nat \<times> buffer) list" where
  "deliverLoop wm delivered =
     (case js_get (w_receiveBuffer wm) (w_expectedSeqNum wm) of
        Null \<Rightarrow> Inr (wm, delivered)
      | Undefined \<Rightarrow> Inl (TypeError, wm)
      | Filled frameData \<Rightarrow>
          deliverLoop
            (wm\<lparr>w_receiveBuffer := js_set (w_receiveBuffer wm) (w_expectedSeqNum wm) Null,
                 w_expectedSeqNum := nextSeqNum (w_expectedSeqNum wm),
                 w_receivedMask := signed_drop_bit 1 (w_receivedMask wm)\<rparr>)
            (delivered @ [(w_expectedSeqNum wm, frameData)]))"
  by pat_completeness auto
termination
proof (relation "measure (\<lambda>(wm, delivered). filledCount (w_receiveBuffer wm))")
  show "wf (measure (\<lambda>(wm, delivered). filledCount (w_receiveBuffer wm)))"
    by simp
next
  fix wm :: window_manager and delivered :: "(nat \<times> buffer) list" and frameData :: buffer
  assume get: "js_get (w_receiveBuffer wm) (w_expectedSeqNum wm) = Filled frameData"
  have less: "filledCount (xs[i := Null]) < filledCount xs"
    if "i < length xs" "xs ! i = Filled v" for xs :: "buffer cell list" and i v
    using that
  proof (induction xs arbitrary: i)
    case Nil
    then show ?case by simp
  next
    case (Cons c xs)
    show ?case
    proof (cases i)
      case 0
      with Cons.prems show ?thesis by simp
    next
      case (Suc j)
      with Cons.prems have "filledCount (xs[j := Null]) < filledCount xs"
        by (simp add: Cons.IH)
      with Suc show ?thesis by (cases c) simp_all
    qed
  qed
  from get have "w_expectedSeqNum wm < length (w_receiveBuffer wm)"
    and "w_receiveBuffer wm ! w_expectedSeqNum wm = Filled frameData"
    by (auto simp: js_get_def split: if_splits)
  then have "filledCount (js_set (w_receiveBuffer wm) (w_expectedSeqNum wm) Null)
               < filledCount (w_receiveBuffer wm)"
    by (simp add: js_set_def less)
  then show "((wm\<lparr>w_receiveBuffer := js_set (w_receiveBuffer wm) (w_expectedSeqNum wm) Null,
                   w_expectedSeqNum := nextSeqNum (w_expectedSeqNum wm),
                   w_receivedMask := signed_drop_bit 1 (w_receivedMask wm)\<rparr>,
               delivered @ [(w_expectedSeqNum wm, frameData)]),
              (wm, delivered))
             \<in> measure (\<lambda>(wm, delivered). filledCount (w_receiveBuffer wm))"
    by simp
qed

declare deliverLoop.simps [simp del]

text \<open>
  \<open>deliverFramesInOrder\<close>: the loop, then the \<open>frames_delivered\<close> event, then the
  \<open>delivered\<close> result. The result is only returned when \<open>emit\<close> returns.
\<close>

definition deliverFramesInOrder ::
  "window_manager \<Rightarrow> js_error \<times> window_manager + receive_result \<times> window_manager" where
  "deliverFramesInOrder wm =
     (case deliverLoop wm [] of
        Inl e \<Rightarrow> Inl e
      | Inr (wm1, delivered) \<Rightarrow>
          (case emitFramesDelivered
                  (FramesDelivered (length delivered)
                     (if delivered = [] then None else Some (fst (delivered ! 0)))
                     (if delivered = [] then None
                      else Some (fst (delivered ! (length delivered - 1))))
                     (w_expectedSeqNum wm1))
                  wm1 of
             Inl e \<Rightarrow> Inl e
           | Inr wm2 \<Rightarrow> Inr (Delivered delivered (w_expectedSeqNum wm2), wm2)))"

definition receiveFrame ::
  "nat \<Rightarrow> buffer \<Rightarrow> window_manager
     \<Rightarrow> js_error \<times> window_manager + receive_result \<times> window_manager" where
  "receiveFrame seqNum data wm0 =
     (let wm = wm0\<lparr>w_stats := (w_stats wm0)\<lparr>framesReceived :=
                                     framesReceived (w_stats wm0) + 1\<rparr>\<rparr>;
          diff = seqNumDiff seqNum (w_expectedSeqNum wm)
      in if diff < 0 then Inr (Duplicate seqNum (w_expectedSeqNum wm), wm)
         else if diff \<ge> int (w_windowSize wm)
         then Inr (OutOfWindow seqNum (w_expectedSeqNum wm), wm)
         else
           let wm1 = wm\<lparr>w_receiveBuffer := js_set (w_receiveBuffer wm) seqNum (Filled data)\<rparr>;
               bitPos = seqNumDiff seqNum (w_expectedSeqNum wm1);
               wm2 = wm1\<lparr>w_receivedMask :=
                           w_receivedMask wm1 OR push_bit (nat bitPos mod 32) 1\<rparr>
           in if seqNum = w_expectedSeqNum wm2 then deliverFramesInOrder wm2
              else
                let wm3 = wm2\<lparr>w_stats := (w_stats wm2)
                                \<lparr>outOfOrderFrames := outOfOrderFrames (w_stats wm2) + 1,
                                 framesBuffered := framesBuffered (w_stats wm2) + 1\<rparr>\<rparr>;
                    wm4 = wm_emit (FrameBuffered seqNum (w_expectedSeqNum wm3)
                                     (getBufferSize wm3)) wm3
                in Inr (Buffered seqNum (w_expectedSeqNum wm4), wm4))"

text \<open>
  \<open>reset\<close>: back to the constructor's window state; the statistics and the listeners
  stay.
\<close>

definition reset :: "window_manager \<Rightarrow> window_manager" where
  "reset wm =
     wm_emit WindowReset
       (wm\<lparr>w_sendBase := 0, w_nextSeqNum := 0, w_windowSize := WINDOW_SIZE,
            w_expectedSeqNum := 0, w_receiveBuffer := replicate 16 Null,
            w_receivedMask := 0, w_congestionLevel := 0\<rparr>)"

text \<open>
  A run of the receiver: the frames handed to \<open>receiveFrame\<close> one after the other,
  collecting what each call delivers, up to the first call that throws.
\<close>

fun receiveAll ::
  "(nat \<times> buffer) list \<Rightarrow> window_manager
     \<Rightarrow> js_error \<times> window_manager + (nat \<times> buffer) list \<times> window_manager" where
  "receiveAll [] wm = Inr ([], wm)"
| "receiveAll ((seqNum, data) # rest) wm =
     (case receiveFrame seqNum data wm of
        Inl e \<Rightarrow> Inl e
      | Inr (result, wm1) \<Rightarrow>
          (case receiveAll rest wm1 of
             Inl e \<Rightarrow> Inl e
           | Inr (later, wm2) \<Rightarrow>
               Inr ((case result of Delivered frames _ \<Rightarrow> frames | _ \<Rightarrow> []) @ later, wm2)))"

section \<open>Acknowledgements (src/errorControl/acknowledgments.js)\<close>

text \<open>
  An entry of \<open>pendingAcks\<close>. The timeout is the handle \<open>setTimeout\<close> returned; the
  retransmit callback is a closure of the caller (or \<open>null\<close>), kept here as a value of
  type \<open>'cb\<close> that the caller interprets.
\<close>

record 'cb pending_ack =
  p_frame :: buffer
  p_retries :: nat
  p_timeout :: nat
  p_retransmitCallback :: "'cb option"

record ack_stats =
  acksSent :: nat
  naksSent :: nat
  acksReceived :: nat
  naksReceived :: nat
  timeouts :: nat
  retransmissions :: nat
  duplicatesDetected :: nat

text \<open>The events of the ACK engine that concern pending frames, payload fields in source order.\<close>

datatype ack_event =
    AckRegistered nat nat
  | AckUnexpected nat
  | AckReceived nat nat
  | NakUnexpected nat
  | NakReceived nat nat
  | AckTimeout nat nat nat
  | FrameFailed nat nat
  | FrameRetransmitting nat nat
  | AcksCleared

text \<open>
  The state of an \<open>AcknowledgmentManager\<close>, with the timers it has set: \<open>a_timers\<close>
  maps the handle of every live timeout to the arguments its closure passes to
  \<open>handleAckTimeout\<close>; \<open>a_nextTimer\<close> is the next fresh handle.
\<close>

record 'cb ack_manager =
  pendingAcks :: "nat \<rightharpoonup> 'cb pending_ack"
  receivedFrames :: "nat set"
  a_expectedSeqNum :: nat
  a_stats :: ack_stats
  a_events :: "ack_event list"
  a_timers :: "nat \<rightharpoonup> nat \<times> 'cb option"
  a_nextTimer :: nat

definition new_AcknowledgmentManager :: "'cb ack_manager" where
  "new_AcknowledgmentManager =
     \<lparr>pendingAcks = Map.empty, receivedFrames = {}, a_expectedSeqNum = 0,
      a_stats = \<lparr>acksSent = 0, naksSent = 0, acksReceived = 0, naksReceived = 0,
                  timeouts = 0, retransmissions = 0, duplicatesDetected = 0\<rparr>,
      a_events = [], a_timers = Map.empty, a_nextTimer = 0\<rparr>"

definition am_emit :: "ack_event \<Rightarrow> 'cb ack_manager \<Rightarrow> 'cb ack_manager" where
  "am_emit e am = am\<lparr>a_events := a_events am @ [e]\<rparr>"

text \<open>
  \<open>setTimeout(() => this.handleAckTimeout(seqNum, cb), ACK_TIMEOUT)\<close> and
  \<open>clearTimeout\<close>.
\<close>

definition setAckTimeout ::
  "nat \<Rightarrow> 'cb option \<Rightarrow> 'cb ack_manager \<Rightarrow> nat \<times> 'cb ack_manager" where
  "setAckTimeout seqNum cb am =
     (a_nextTimer am,
      am\<lparr>a_timers := (a_timers am)(a_nextTimer am \<mapsto> (seqNum, cb)),
         a_nextTimer := a_nextTimer am + 1\<rparr>)"

definition clearTimeout :: "nat \<Rightarrow> 'cb ack_manager \<Rightarrow> 'cb ack_manager" where
  "clearTimeout h am = am\<lparr>a_timers := (a_timers am)(h := None)\<rparr>"

definition registerPendingAck ::
  "nat \<Rightarrow> buffer \<Rightarrow> 'cb option \<Rightarrow> 'cb ack_manager \<Rightarrow> 'cb ack_manager" where
  "registerPendingAck seqNum frame retransmitCallback am =
     (let am1 = (case pendingAcks am seqNum of
                   Some existing \<Rightarrow> clearTimeout (p_timeout existing) am
                 | None \<Rightarrow> am);
          (timeout, am2) = setAckTimeout seqNum retransmitCallback am1;
          am3 = am2\<lparr>pendingAcks := (pendingAcks am2)(seqNum \<mapsto>
                       \<lparr>p_frame = frame, p_retries = 0, p_timeout = timeout,
                        p_retransmitCallback = retransmitCallback\<rparr>)\<rparr>
      in am_emit (AckRegistered seqNum (length frame)) am3)"


text \<open>
  \<open>retransmitFrame\<close>: restart the timer and call the callback with the stored frame.
  The second component lists the callback calls made, for the caller to run.
\<close>

definition retransmitFrame ::
  "nat \<Rightarrow> 'cb ack_manager \<Rightarrow> 'cb ack_manager \<times> ('cb \<times> buffer \<times> nat) list" where
  "retransmitFrame seqNum am =
     (case pendingAcks am seqNum of
        None \<Rightarrow> (am, [])
      | Some pending \<Rightarrow>
          let am1 = am\<lparr>a_stats := (a_stats am)\<lparr>retransmissions :=
                                       retransmissions (a_stats am) + 1\<rparr>\<rparr>;
              am2 = clearTimeout (p_timeout pending) am1;
              (timeout, am3) = setAckTimeout seqNum (p_retransmitCallback pending) am2;
              pending1 = pending\<lparr>p_timeout := timeout\<rparr>;
              am4 = am3\<lparr>pendingAcks := (pendingAcks am3)(seqNum \<mapsto> pending1)\<rparr>;
              am5 = am_emit (FrameRetransmitting seqNum (p_retries pending1 + 1)) am4
          in (am5, case p_retransmitCallback pending1 of
                     None \<Rightarrow> []
                   | Some cb \<Rightarrow> [(cb, p_frame pending1, seqNum)]))"

definition handleReceivedNak ::
  "nat \<Rightarrow> 'cb ack_manager \<Rightarrow> bool \<times> 'cb ack_manager \<times> ('cb \<times> buffer \<times> nat) list" where
  "handleReceivedNak seqNum am0 =
     (let am = am0\<lparr>a_stats := (a_stats am0)\<lparr>naksReceived :=
                                     naksReceived (a_stats am0) + 1\<rparr>\<rparr>
      in case pendingAcks am seqNum of
           None \<Rightarrow> (False, am_emit (NakUnexpected seqNum) am, [])
         | Some pending \<Rightarrow>
             let am1 = am_emit (NakReceived seqNum (p_retries pending)) am;
                 (am2, calls) = retransmitFrame seqNum am1
             in (True, am2, calls))"

text \<open>
  \<open>handleAckTimeout\<close>. \<open>pending.retries++\<close> updates the entry in the map. The
  \<open>retransmitCallback\<close> argument is not used by the body.
\<close>

definition handleAckTimeout ::
  "nat \<Rightarrow> 'cb option \<Rightarrow> 'cb ack_manager
     \<Rightarrow> 'cb ack_manager \<times> ('cb \<times> buffer \<times> nat) list" where
  "handleAckTimeout seqNum retransmitCallback am =
     (case pendingAcks am seqNum of
        None \<Rightarrow> (am, [])
      | Some pending0 \<Rightarrow>
          let pending = pending0\<lparr>p_retries := p_retries pending0 + 1\<rparr>;
              am1 = am\<lparr>pendingAcks := (pendingAcks am)(seqNum \<mapsto> pending),
                       a_stats := (a_stats am)\<lparr>timeouts := timeouts (a_stats am) + 1\<rparr>\<rparr>;
              am2 = am_emit (AckTimeout seqNum (p_retries pending) MAX_RETRIES) am1
          in if p_retries pending \<ge> MAX_RETRIES then
               let am3 = am2\<lparr>pendingAcks := (pendingAcks am2)(seqNum := None)\<rparr>
               in (am_emit (FrameFailed seqNum (p_retries pending)) am3, [])
             else retransmitFrame seqNum am2)"

text \<open>
  A timeout with handle \<open>h\<close> fires: nothing happens unless it is live; a live one is
  used up and runs its closure.
\<close>

definition fireTimer ::
  "nat \<Rightarrow> 'cb ack_manager \<Rightarrow> 'cb ack_manager \<times> ('cb \<times> buffer \<times> nat) list" where
  "fireTimer h am =
     (case a_timers am h of
        None \<Rightarrow> (am, [])
      | Some (seqNum, cb) \<Rightarrow>
          handleAckTimeout seqNum cb (am\<lparr>a_timers := (a_timers am)(h := None)\<rparr>))"

text \<open>\<open>clearPendingAcks\<close>: every pending entry's timeout is cleared, then both tables.\<close>

definition clearPendingAcks :: "'cb ack_manager \<Rightarrow> 'cb ack_manager" where
  "clearPendingAcks am =
     am_emit AcksCleared
       (am\<lparr>a_timers := (\<lambda>h. if h \<in> p_timeout ` ran (pendingAcks am) then None
                              else a_timers am h),
            pendingAcks := Map.empty, receivedFrames := {}\<rparr>)"

section \<open>Connection management (src/connection/connectionManager.js)\<close>

datatype ConnectionState = DISCONNECTED | CONNECTING | CONNECTED | DISCONNECTING

record cm_stats =
  connectionsEstablished :: nat
  connectionsFailed :: nat
  disconnections :: nat
  heartbeatsSent :: nat
  heartbeatsReceived :: nat

datatype cm_event =
    ConnectionRejected
  | ConnectionEstablished nat nat
  | DisconnectedEvent
  | DisconnectionRequest nat

text \<open>The timers of the connection manager, by what their closure does.\<close>

datatype cm_timer = ConnectionTimeout | HeartbeatInterval | DisconnectAfter100ms

text \<open>
  The state of a \<open>ConnectionManager\<close>. \<open>c_sendCallback\<close> tells whether a send
  callback is set, \<open>c_sent\<close> lists the frames handed to it, \<open>c_timers\<close> the pending
  timers. Uptime bookkeeping reads the clock and is left out.
\<close>

record connection_manager =
  c_state :: ConnectionState
  c_localSeqNum :: nat
  c_remoteSeqNum :: nat
  c_sendCallback :: bool
  c_sent :: "buffer list"
  c_timers :: "cm_timer list"
  c_stats :: cm_stats
  c_events :: "cm_event list"

definition new_ConnectionManager :: connection_manager where
  "new_ConnectionManager =
     \<lparr>c_state = DISCONNECTED, c_localSeqNum = 0, c_remoteSeqNum = 0,
      c_sendCallback = False, c_sent = [], c_timers = [],
      c_stats = \<lparr>connectionsEstablished = 0, connectionsFailed = 0, disconnections = 0,
                  heartbeatsSent = 0, heartbeatsReceived = 0\<rparr>,
      c_events = []\<rparr>"

definition cm_emit :: "cm_event \<Rightarrow> connection_manager \<Rightarrow> connection_manager" where
  "cm_emit e cm = cm\<lparr>c_events := c_events cm @ [e]\<rparr>"

text \<open>
  The bytes of \<open>Buffer.from('CONNECT_ACK', 'utf8')\<close>, of
  \<open>Buffer.from('DISC_ACK', 'utf8')\<close> and of \<open>Buffer.from('DISCONNECT', 'utf8')\<close>.
\<close>

definition CONNECT_ACK_text :: buffer where
  "CONNECT_ACK_text = [0x43, 0x4f, 0x4e, 0x4e, 0x45, 0x43, 0x54, 0x5f, 0x41, 0x43, 0x4b]"

definition DISC_ACK_text :: buffer where
  "DISC_ACK_text = [0x44, 0x49, 0x53, 0x43, 0x5f, 0x41, 0x43, 0x4b]"

definition DISCONNECT_text :: buffer where
  "DISCONNECT_text = [0x44, 0x49, 0x53, 0x43, 0x4f, 0x4e, 0x4e, 0x45, 0x43, 0x54]"

definition createDisconnectionFrame :: "nat \<Rightarrow> build_error + buffer" where
  "createDisconnectionFrame seqNum = buildFrame DISC (int seqNum) DISCONNECT_text"

definition createConnectionAckFrame :: "nat \<Rightarrow> build_error + buffer" where
  "createConnectionAckFrame seqNum = buildFrame CONN_ACK (int seqNum) CONNECT_ACK_text"

definition stopHeartbeat :: "connection_manager \<Rightarrow> connection_manager" where
  "stopHeartbeat cm = cm\<lparr>c_timers := filter (\<lambda>t. t \<noteq> HeartbeatInterval) (c_timers cm)\<rparr>"

definition clearTimeouts :: "connection_manager \<Rightarrow> connection_manager" where
  "clearTimeouts cm = cm\<lparr>c_timers := filter (\<lambda>t. t \<noteq> ConnectionTimeout) (c_timers cm)\<rparr>"

definition startHeartbeat :: "connection_manager \<Rightarrow> connection_manager" where
  "startHeartbeat cm =
     (let cm1 = stopHeartbeat cm in cm1\<lparr>c_timers := c_timers cm1 @ [HeartbeatInterval]\<rparr>)"

definition handleConnectionEstablished :: "connection_manager \<Rightarrow> connection_manager" where
  "handleConnectionEstablished cm =
     (let cm1 = clearTimeouts cm;
          cm2 = cm1\<lparr>c_state := CONNECTED,
                    c_stats := (c_stats cm1)\<lparr>connectionsEstablished :=
                                  connectionsEstablished (c_stats cm1) + 1\<rparr>\<rparr>;
          cm3 = startHeartbeat cm2
      in cm_emit (ConnectionEstablished (c_localSeqNum cm3) (c_remoteSeqNum cm3)) cm3)"

text \<open>\<open>acceptConnection\<close> with a send callback; a \<open>throw\<close> of the frame builder is an \<open>Inl\<close>.\<close>

definition acceptConnection ::
  "nat \<Rightarrow> connection_manager \<Rightarrow> build_error + bool \<times> connection_manager" where
  "acceptConnection remoteSeqNum cm =
     (if c_state cm \<noteq> DISCONNECTED then Inr (False, cm_emit ConnectionRejected cm)
      else
        let cm1 = cm\<lparr>c_state := CONNECTING, c_remoteSeqNum := remoteSeqNum,
                      c_sendCallback := True\<rparr>
        in case createConnectionAckFrame (c_localSeqNum cm1) of
             Inl e \<Rightarrow> Inl e
           | Inr connAckFrame \<Rightarrow>
               let cm2 = cm1\<lparr>c_sent := c_sent cm1 @ [connAckFrame]\<rparr>
               in Inr (True, handleConnectionEstablished cm2))"

definition handleDisconnection :: "connection_manager \<Rightarrow> connection_manager" where
  "handleDisconnection cm =
     (let cm1 = cm\<lparr>c_state := DISCONNECTED,
                    c_stats := (c_stats cm)\<lparr>disconnections :=
                                  disconnections (c_stats cm) + 1\<rparr>\<rparr>;
          cm2 = stopHeartbeat cm1;
          cm3 = clearTimeouts cm2
      in cm_emit DisconnectedEvent cm3)"

text \<open>
  \<open>handleDisconnectionRequest\<close>: in state \<open>CONNECTED\<close> the reply is built with
  \<open>createDataFrame\<close>, sent when a callback is set, and the disconnection is scheduled
  100 ms later.
\<close>

definition handleDisconnectionRequest ::
  "frame \<Rightarrow> connection_manager \<Rightarrow> build_error + bool \<times> connection_manager" where
  "handleDisconnectionRequest frame cm =
     (let finish = (\<lambda>cm'. Inr (True, cm_emit (DisconnectionRequest (f_seqNum frame)) cm'))
      in if c_state cm = CONNECTED then
           (case createDataFrame (c_localSeqNum cm) DISC_ACK_text of
              Inl e \<Rightarrow> Inl e
            | Inr discAckFrame \<Rightarrow>
                let cm1 = (if c_sendCallback cm
                           then cm\<lparr>c_sent := c_sent cm @ [discAckFrame]\<rparr> else cm);
                    cm2 = cm1\<lparr>c_timers := c_timers cm1 @ [DisconnectAfter100ms]\<rparr>
                in finish cm2)
         else finish cm)"

text \<open>The 100 ms timer set by \<open>handleDisconnectionRequest\<close> fires.\<close>

definition fireDisconnectTimer :: "connection_manager \<Rightarrow> connection_manager" where
  "fireDisconnectTimer cm =
     (if DisconnectAfter100ms \<in> set (c_timers cm)
      then handleDisconnection (cm\<lparr>c_timers := remove1 DisconnectAfter100ms (c_timers cm)\<rparr>)
      else cm)"

section \<open>The data link layer (src/dataLinkLayer.js)\<close>

text \<open>The one retransmit callback the layer registers: hand the frame to the physical layer.\<close>

datatype retransmit_callback = SendToPhysical

datatype dll_error =
    PhysicalLayerNotConfigured
  | BuildError build_error

text \<open>
  The window manager, the ACK engine, and the physical layer: whether
  \<open>setPhysicalLayer\<close> has installed a callback, and the frames handed to it so far.
  The send queue, drained by an asynchronous loop, and the global statistics are not
  part of the model.
\<close>

record data_link_layer =
  windowManager :: window_manager
  ackManager :: "retransmit_callback ack_manager"
  physicalLayerCallback :: bool
  d_transmitted :: "buffer list"

text \<open>
  The constructor creates the window manager and the ACK engine, and
  \<open>setupEventListeners\<close> attaches the layer's listener to \<open>frames_delivered\<close>.
\<close>

definition new_DataLinkLayer :: data_link_layer where
  "new_DataLinkLayer =
     \<lparr>windowManager =
        new_WindowManager\<lparr>w_framesDeliveredListeners := [DeliverToNetworkLayer]\<rparr>,
      ackManager = new_AcknowledgmentManager,
      physicalLayerCallback = False, d_transmitted = []\<rparr>"

definition setPhysicalLayer :: "data_link_layer \<Rightarrow> data_link_layer" where
  "setPhysicalLayer dll = dll\<lparr>physicalLayerCallback := True\<rparr>"

definition sendFrameToPhysical :: "buffer \<Rightarrow> data_link_layer \<Rightarrow> dll_error + data_link_layer" where
  "sendFrameToPhysical frame dll =
     (if \<not> physicalLayerCallback dll then Inl PhysicalLayerNotConfigured
      else Inr (dll\<lparr>d_transmitted := d_transmitted dll @ [frame]\<rparr>))"

text \<open>Running the retransmit callbacks the ACK engine has called, in order.\<close>

fun runCallbacks ::
  "(retransmit_callback \<times> buffer \<times> nat) list \<Rightarrow> data_link_layer
     \<Rightarrow> dll_error + data_link_layer" where
  "runCallbacks [] dll = Inr dll"
| "runCallbacks ((SendToPhysical, frame, seqNum) # calls) dll =
     (case sendFrameToPhysical frame dll of
        Inl e \<Rightarrow> Inl e
      | Inr dll1 \<Rightarrow> runCallbacks calls dll1)"

text \<open>
  \<open>sendDataFrame\<close>. With a full window the source waits for space and tries again;
  here the call returns \<open>None\<close> for the sequence number and is to be repeated.
\<close>

definition sendDataFrame ::
  "buffer \<Rightarrow> data_link_layer \<Rightarrow> dll_error + nat option \<times> data_link_layer" where
  "sendDataFrame data dll =
     (case getNextSeqNum (windowManager dll) of
        (None, wm) \<Rightarrow> Inr (None, dll\<lparr>windowManager := wm\<rparr>)
      | (Some seqNum, wm) \<Rightarrow>
          (case createDataFrame seqNum data of
             Inl e \<Rightarrow> Inl (BuildError e)
           | Inr frame \<Rightarrow>
               let dll1 = dll\<lparr>windowManager := wm,
                             ackManager := registerPendingAck seqNum frame (Some SendToPhysical)
                                             (ackManager dll)\<rparr>
               in case sendFrameToPhysical frame dll1 of
                    Inl e \<Rightarrow> Inl e
                  | Inr dll2 \<Rightarrow> Inr (Some seqNum, dll2)))"


definition processNakFrame :: "frame \<Rightarrow> data_link_layer \<Rightarrow> dll_error + data_link_layer" where
  "processNakFrame frame dll =
     (let (retransmit, am, calls) = handleReceivedNak (f_seqNum frame) (ackManager dll)
      in runCallbacks calls (dll\<lparr>ackManager := am\<rparr>))"

text \<open>A timeout of the ACK engine fires inside the layer.\<close>

definition ackTimerFires :: "nat \<Rightarrow> data_link_layer \<Rightarrow> dll_error + data_link_layer" where
  "ackTimerFires h dll =
     (let (am, calls) = fireTimer h (ackManager dll)
      in runCallbacks calls (dll\<lparr>ackManager := am\<rparr>))"

text \<open>
  The retransmission timer of the pending frame \<open>seqNum\<close> fires, when there is such a
  frame; and \<open>n\<close> such timeouts in a row, with nothing else happening in between.
\<close>

definition timeoutOf :: "nat \<Rightarrow> data_link_layer \<Rightarrow> dll_error + data_link_layer" where
  "timeoutOf seqNum dll =
     (case pendingAcks (ackManager dll) seqNum of
        None \<Rightarrow> Inr dll
      | Some pending \<Rightarrow> ackTimerFires (p_timeout pending) dll)"

fun timeouts_in_a_row :: "nat \<Rightarrow> nat \<Rightarrow> data_link_layer \<Rightarrow> dll_error + data_link_layer" where
  "timeouts_in_a_row 0 seqNum dll = Inr dll"
| "timeouts_in_a_row (Suc n) seqNum dll =
     (case timeoutOf seqNum dll of
        Inl e \<Rightarrow> Inl e
      | Inr dll1 \<Rightarrow> timeouts_in_a_row n seqNum dll1)"

section \<open>Predicates used in the statements\<close>

text \<open>
  The receiver state the constructor and \<open>reset\<close> set up and every operation keeps:
  an expected sequence number below 16 and a 16-cell buffer without holes.
\<close>

definition receiver_ok :: "window_manager \<Rightarrow> bool" where
  "receiver_ok wm \<longleftrightarrow>
     w_expectedSeqNum wm < 16 \<and> length (w_receiveBuffer wm) = 16
     \<and> Undefined \<notin> set (w_receiveBuffer wm)"

text \<open>A list of sequence numbers that starts at \<open>e\<close> and steps by \<open>nextSeqNum\<close>.\<close>

fun consecutiveFrom :: "nat \<Rightarrow> nat list \<Rightarrow> bool" where
  "consecutiveFrom e [] = True"
| "consecutiveFrom e (x # xs) = (x = e \<and> consecutiveFrom (nextSeqNum e) xs)"

text \<open>What a call of \<open>receiveFrame\<close> hands over for delivery.\<close>

definition deliveredOf :: "receive_result \<Rightarrow> (nat \<times> buffer) list" where
  "deliveredOf result = (case result of Delivered frames _ \<Rightarrow> frames | _ \<Rightarrow> [])"

text \<open>
  What the delivery loop does from a proper receiver state \<open>wm\<close>, ending in \<open>wm'\<close>
  with the frames \<open>frames\<close> added to the delivered list.
\<close>

definition loop_post ::
  "window_manager \<Rightarrow> window_manager \<Rightarrow> (nat \<times> buffer) list \<Rightarrow> bool" where
  "loop_post wm wm' frames \<longleftrightarrow>
     consecutiveFrom (w_expectedSeqNum wm) (map fst frames)
     \<and> w_expectedSeqNum wm' = (w_expectedSeqNum wm + length frames) mod 16
     \<and> receiver_ok wm'
     \<and> length frames \<le> filledCount (w_receiveBuffer wm)
     \<and> (\<forall>i < 16. w_receiveBuffer wm ! i = Null \<longrightarrow> w_receiveBuffer wm' ! i = Null)
     \<and> (\<forall>q \<in> set (map fst frames). w_receiveBuffer wm' ! q = Null)
     \<and> (\<forall>(q, d) \<in> set frames. q < 16)
     \<and> (case w_receiveBuffer wm ! w_expectedSeqNum wm of
          Filled d \<Rightarrow> frames \<noteq> [] \<and> hd frames = (w_expectedSeqNum wm, d)
        | _ \<Rightarrow> frames = [])
     \<and> w_receiveBuffer wm' ! w_expectedSeqNum wm' = Null
     \<and> w_windowSize wm' = w_windowSize wm
     \<and> w_sendBase wm' = w_sendBase wm \<and> w_nextSeqNum wm' = w_nextSeqNum wm
     \<and> w_stats wm' = w_stats wm \<and> w_events wm' = w_events wm
     \<and> w_framesDeliveredListeners wm' = w_framesDeliveredListeners wm
     \<and> (\<forall>(q, d) \<in> set frames. w_receiveBuffer wm ! q = Filled d)"

text \<open>
  Sending several payloads one after the other with \<open>sendDataFrame\<close>; the run stops
  at the first payload that finds the window full.
\<close>

fun sendAll :: "buffer list \<Rightarrow> data_link_layer \<Rightarrow> dll_error + data_link_layer" where
  "sendAll [] dll = Inr dll"
| "sendAll (data # rest) dll =
     (case sendDataFrame data dll of
        Inl e \<Rightarrow> Inl e
      | Inr (None, dll1) \<Rightarrow> Inr dll1
      | Inr (Some seqNum, dll1) \<Rightarrow> sendAll rest dll1)"

text \<open>The same NAK frame arrives \<open>n\<close> times in a row.\<close>

fun naks_in_a_row :: "nat \<Rightarrow> frame \<Rightarrow> data_link_layer \<Rightarrow> dll_error + data_link_layer" where
  "naks_in_a_row 0 frame dll = Inr dll"
| "naks_in_a_row (Suc n) frame dll =
     (case processNakFrame frame dll of
        Inl e \<Rightarrow> Inl e
      | Inr dll1 \<Rightarrow> naks_in_a_row n frame dll1)"


definition parsedNak :: "nat \<Rightarrow> frame" where
  "parsedNak n = fst (projr (parseFrame (projr (createNakFrame n))))"


definition one_sent :: data_link_layer where
  "one_sent = projr (sendAll [[0x41]] (setPhysicalLayer new_DataLinkLayer))"

text \<open>
  The frame \<open>seqNum\<close> is pending in the layer with \<open>k\<close> retries so far, its timer is
  live, and a retransmission reaches the physical layer.
\<close>

definition armed :: "nat \<Rightarrow> buffer \<Rightarrow> nat \<Rightarrow> data_link_layer \<Rightarrow> bool" where
  "armed seqNum frame k dll \<longleftrightarrow>
     physicalLayerCallback dll
     \<and> (\<exists>p. pendingAcks (ackManager dll) seqNum = Some p
            \<and> p_frame p = frame \<and> p_retries p = k
            \<and> p_retransmitCallback p = Some SendToPhysical
            \<and> (\<exists>cb. a_timers (ackManager dll) (p_timeout p) = Some (seqNum, cb)))"

text \<open>The parsed frame of the DISC request a peer sends with sequence number 0.\<close>

definition parsedDisc :: frame where
  "parsedDisc = fst (projr (parseFrame (projr (createDisconnectionFrame 0))))"

text \<open>A peer that has accepted a connection: the constructor, then \<open>acceptConnection(0, cb)\<close>.\<close>

definition connected_peer :: connection_manager where
  "connected_peer = snd (projr (acceptConnection 0 new_ConnectionManager))"

section \<open>Properties of bit stuffing\<close>

lemma bitStuff_loop_acc: "bitStuff_loop xs acc = acc @ bitStuff_loop xs []"
proof (induction xs arbitrary: acc)
  case Nil
  show ?case by simp
next
  case (Cons b xs)
  have "\<And>pre. bitStuff_loop xs pre = pre @ bitStuff_loop xs []" by (rule Cons.IH)
  note ih = this
  show ?case
    by (simp add: ih [of "acc @ _"] ih [of "[_, _]"] ih [of "[_]"])
qed

lemma bitStuff_Cons:
  "bitStuff_loop (b # xs) [] =
     (if b = FLAG then [ESC, 0x5e] else if b = ESC then [ESC, 0x5d] else [b]) @ bitStuff_loop xs []"
  using bitStuff_loop_acc [of xs "[ESC, 0x5e]"] bitStuff_loop_acc [of xs "[ESC, 0x5d]"]
    bitStuff_loop_acc [of xs "[b]"]
  by simp

lemma bitUnstuff_loop_stuff:
  "bitUnstuff_loop (bitStuff_loop xs [] @ ys) acc = bitUnstuff_loop ys (acc @ xs)"
proof (induction xs arbitrary: acc)
  case Nil
  show ?case by simp
next
  case (Cons b xs)
  show ?case
    by (simp add: bitStuff_Cons Cons.IH FLAG_def ESC_def del: bitStuff_loop.simps)
qed

lemma bitStuff_eq_loop: "bitStuff x = bitStuff_loop x []"
  by (simp add: bitStuff_def)

lemma bitUnstuff_eq_loop: "bitUnstuff x = bitUnstuff_loop x []"
  by (simp add: bitUnstuff_def)

lemma bitUnstuff_bitStuff: "bitUnstuff (bitStuff x) = Inr x"
proof -
  have "bitUnstuff_loop (bitStuff_loop x [] @ []) [] = bitUnstuff_loop [] ([] @ x)"
    by (rule bitUnstuff_loop_stuff)
  then show ?thesis
    unfolding bitStuff_eq_loop bitUnstuff_eq_loop by simp
qed

lemma FLAG_notin_bitStuff_loop: "FLAG \<notin> set (bitStuff_loop xs [])"
proof (induction xs)
  case Nil
  show ?case by simp
next
  case (Cons b xs)
  then show ?case
    by (simp add: bitStuff_Cons FLAG_def ESC_def del: bitStuff_loop.simps)
qed

text \<open>
  Claim C6. For every byte sequence \<open>x\<close>, unstuffing the stuffed sequence
  succeeds and gives \<open>x\<close> back, and the stuffed sequence contains no \<open>FLAG\<close> byte.
\<close>

theorem C6_stuffing_roundtrip: "bitUnstuff (bitStuff x) = Inr x \<and> FLAG \<notin> set (bitStuff x)"
proof
  show "bitUnstuff (bitStuff x) = Inr x" by (rule bitUnstuff_bitStuff)
  show "FLAG \<notin> set (bitStuff x)"
    unfolding bitStuff_eq_loop by (rule FLAG_notin_bitStuff_loop)
qed

lemma bitUnstuff_loop_length:
  "bitUnstuff_loop xs acc = Inr ys \<Longrightarrow> length ys \<le> length acc + length xs"
proof (induction xs acc arbitrary: ys rule: bitUnstuff_loop.induct)
  case (1 result)
  then show ?case by simp
next
  case (2 byte rest result)
  show ?case
  proof (cases "byte = ESC")
    case True
    then show ?thesis
      using 2 by (cases rest) (fastforce split: if_splits)+
  next
    case False
    then show ?thesis
      using 2 by (auto split: if_splits)
  qed
qed

section \<open>Properties of the CRC\<close>

lemma calculate_loop_mask:
  "crc AND 0xffff = crc \<Longrightarrow> calculate_loop data crc AND 0xffff = calculate_loop data crc"
proof (induction data arbitrary: crc)
  case Nil
  then show ?case by simp
next
  case (Cons b data)
  show ?case
    by (simp add: Let_def Cons.IH word_bw_assocs)
qed

lemma calculate_mask: "calculate data AND 0xffff = calculate data"
proof -
  have "calculate_loop data 0xffff AND 0xffff = calculate_loop data 0xffff"
    by (rule calculate_loop_mask) simp
  then have "(calculate_loop data 0xffff XOR 0xffff) AND 0xffff = calculate_loop data 0xffff XOR 0xffff"
    by (metis bit.conj_xor_distrib2 and.idem)
  then show ?thesis by (simp add: calculate_def calculate_from_def)
qed

lemma crc_bytes_join:
  fixes c :: int32
  assumes "c AND 0xffff = c"
  shows "push_bit 8 (ucast (ucast (signed_drop_bit 8 c AND 0xff) :: byte))
           OR ucast (ucast (c AND 0xff) :: byte) = c"
proof -
  have m16: "(0xffff :: int32) = mask 16" by (simp add: mask_eq_decr_exp)
  have m8: "(0xff :: int32) = mask 8" by (simp add: mask_eq_decr_exp)
  have "bit c n = (bit c n \<and> n < 16)" for n
  proof -
    have "bit c n = bit (c AND mask 16) n" using assms by (simp add: m16)
    also have "\<dots> = (bit c n \<and> n < 16)"
      by (auto simp: bit_and_iff bit_mask_iff)
    finally show ?thesis .
  qed
  then have hi: "bit c n \<Longrightarrow> n < 16" for n by blast
  show ?thesis
    unfolding m8
  proof (rule bit_word_eqI)
    fix n :: nat
    assume n: "n < LENGTH(32)"
    show "bit (push_bit 8 (ucast (ucast (signed_drop_bit 8 c AND mask 8) :: byte))
           OR ucast (ucast (c AND mask 8) :: byte) :: int32) n = bit c n"
      using n hi [of n] hi [of 31]
      by (auto simp: bit_or_iff bit_push_bit_iff bit_ucast_iff bit_and_iff bit_mask_iff
            bit_signed_drop_bit_iff not_less)
  qed
qed

lemma extractAndValidate_addCrc:
  "extractAndValidate (addCrc x) =
     \<lparr>r_valid = True, r_data = x, r_crc = calculate x, r_calculatedCrc = Some (calculate x)\<rparr>"
  by (simp add: extractAndValidate_def addCrc_def Let_def validate_def nth_append
        crc_bytes_join [OF calculate_mask])

lemma length_addCrc: "length (addCrc x) = length x + 2"
  by (simp add: addCrc_def Let_def)

text \<open>
  Claim C7. For every byte sequence \<open>x\<close>, \<open>extractAndValidate (addCrc x)\<close> is valid
  and returns \<open>x\<close> as its data; \<open>addCrc\<close> appends the high byte of the CRC and then
  the low byte, and the CRC that \<open>extractAndValidate\<close> reads back from the last two
  bytes, \<open>(buf[-2] << 8) | buf[-1]\<close>, is the CRC of the prefix.
\<close>

theorem C7_crc_roundtrip:
  "r_valid (extractAndValidate (addCrc x)) = True
   \<and> r_data (extractAndValidate (addCrc x)) = x
   \<and> addCrc x = x @ [ucast (signed_drop_bit 8 (calculate x) AND 0xff), ucast (calculate x AND 0xff)]
   \<and> r_crc (extractAndValidate (addCrc x))
       = push_bit 8 (ucast (last (butlast (addCrc x)))) OR ucast (last (addCrc x))
   \<and> r_crc (extractAndValidate (addCrc x)) = calculate x"
proof -
  have "push_bit 8 (ucast (last (butlast (addCrc x)))) OR ucast (last (addCrc x)) = calculate x"
    using crc_bytes_join [OF calculate_mask, of x]
    by (simp add: addCrc_def Let_def butlast_append)
  then show ?thesis
    by (simp add: extractAndValidate_addCrc) (simp add: addCrc_def Let_def)
qed


section \<open>Properties of the frame codec\<close>

lemma length_bitStuff_loop: "length xs \<le> length (bitStuff_loop xs [])"
proof (induction xs)
  case Nil
  show ?case by simp
next
  case (Cons b xs)
  then show ?case
    by (simp add: bitStuff_Cons del: bitStuff_loop.simps)
qed

lemma length_bitStuff: "length xs \<le> length (bitStuff xs)"
  unfolding bitStuff_eq_loop by (rule length_bitStuff_loop)

lemma parseFrame_flagged:
  assumes "bitUnstuff ys = Inr (addCrc (c # s # data))"
  shows "parseFrame (FLAG # ys @ [FLAG]) =
     (if unat c \<notin> set FrameType_values then Inl (UnknownFrameType (unat c))
      else Inr (\<lparr>f_type = unat c, f_seqNum = unat (s AND 0x0f), f_data = data,
                 f_rawLength = length ys + 2, f_payloadLength = length data,
                 f_crc = calculate (c # s # data)\<rparr>,
               \<lparr>originalSize = length ys + 2, stuffedSize = length ys,
                 finalSize = length data + 4,
                 overhead = int (length ys) + 2 - int (length data)\<rparr>))"
proof -
  have len: "4 \<le> length ys"
    using bitUnstuff_loop_length [of ys "[]" "addCrc (c # s # data)"] assms
    by (simp add: bitUnstuff_eq_loop length_addCrc)
  have last: "(FLAG # ys @ [FLAG]) ! (length (FLAG # ys @ [FLAG]) - 1) = FLAG"
    by (simp add: nth_append)
  have mid: "take (length (FLAG # ys @ [FLAG]) - 2) (drop 1 (FLAG # ys @ [FLAG])) = ys"
    by simp
  show ?thesis
    unfolding parseFrame_def Let_def mid last
    using len
    by (simp add: assms length_addCrc extractAndValidate_addCrc)
qed

lemma parseFrame_built:
  "parseFrame (FLAG # bitStuff (addCrc (c # s # data)) @ [FLAG]) =
     (if unat c \<notin> set FrameType_values then Inl (UnknownFrameType (unat c))
      else Inr (\<lparr>f_type = unat c, f_seqNum = unat (s AND 0x0f), f_data = data,
                 f_rawLength = length (bitStuff (addCrc (c # s # data))) + 2,
                 f_payloadLength = length data,
                 f_crc = calculate (c # s # data)\<rparr>,
               \<lparr>originalSize = length (bitStuff (addCrc (c # s # data))) + 2,
                 stuffedSize = length (bitStuff (addCrc (c # s # data))),
                 finalSize = length data + 4,
                 overhead = int (length (bitStuff (addCrc (c # s # data)))) + 2
                              - int (length data)\<rparr>))"
  by (rule parseFrame_flagged) (rule bitUnstuff_bitStuff)

lemma seq_cases:
  "0 \<le> seqNum \<Longrightarrow> seqNum \<le> 15 \<Longrightarrow>
     seqNum = 0 \<or> seqNum = 1 \<or> seqNum = 2 \<or> seqNum = 3 \<or> seqNum = 4 \<or> seqNum = 5
      \<or> seqNum = 6 \<or> seqNum = 7 \<or> seqNum = 8 \<or> seqNum = 9 \<or> seqNum = 10 \<or> seqNum = 11
      \<or> seqNum = 12 \<or> seqNum = 13 \<or> seqNum = 14 \<or> seqNum = (15::int)"
  by arith

lemma buildFrame_valid:
  assumes "type \<in> set FrameType_values" "0 \<le> seqNum" "seqNum \<le> 15" "length data \<le> MAX_DATA"
  shows "buildFrame type seqNum data
           = Inr (FLAG # bitStuff (addCrc (of_nat type # of_int seqNum # data)) @ [FLAG])"
proof -
  have "seqNum AND 0x0f = seqNum"
    using seq_cases [OF assms(2,3)] by auto
  then show ?thesis
    using assms by (simp add: buildFrame_def Let_def)
qed

lemma FrameType_byte: "type \<in> set FrameType_values \<Longrightarrow> unat (of_nat type :: byte) = type"
  by (auto simp: FrameType_values_def DATA_def ACK_def NAK_def CONN_def CONN_ACK_def
        DISC_def DISC_ACK_def HEARTBEAT_def)

lemma seq_byte:
  assumes "0 \<le> seqNum" "seqNum \<le> 15"
  shows "uint ((of_int seqNum :: byte) AND 0x0f) = seqNum"
proof -
  show ?thesis
    using seq_cases [OF assms] by auto
qed

text \<open>
  Claim C5. For every frame type of the enumeration, every sequence number from 0 to 15
  and every payload of at most 1024 bytes, \<open>buildFrame\<close> succeeds and \<open>parseFrame\<close>
  of the built frame succeeds with the same type, the same sequence number and the same
  payload.
\<close>

theorem C5_frame_roundtrip:
  assumes "type \<in> set FrameType_values" "0 \<le> seqNum" "seqNum \<le> 15" "length data \<le> 1024"
  shows "\<exists>rawFrame f st. buildFrame type seqNum data = Inr rawFrame
           \<and> parseFrame rawFrame = Inr (f, st)
           \<and> f_type f = type \<and> int (f_seqNum f) = seqNum \<and> f_data f = data"
  using assms
  by (simp add: buildFrame_valid MAX_DATA_def parseFrame_built FrameType_byte seq_byte)

theorem C5_frame_roundtrip_witness:
  "DATA \<in> set FrameType_values \<and> (0::int) \<le> 3 \<and> (3::int) \<le> 15
     \<and> length [0x7e, 0x41 :: byte] \<le> 1024
     \<and> (\<exists>rawFrame f st. buildFrame DATA 3 [0x7e, 0x41] = Inr rawFrame
           \<and> parseFrame rawFrame = Inr (f, st)
           \<and> f_type f = DATA \<and> int (f_seqNum f) = 3 \<and> f_data f = [0x7e, 0x41])"
  using C5_frame_roundtrip [of DATA 3 "[0x7e, 0x41]"]
  by (simp add: FrameType_values_def)

text \<open>
  Claim C10. Every input shorter than 6 bytes is rejected by \<open>parseFrame\<close>: under
  4 bytes by the length guard, and at 4 or 5 bytes by the flag check, the unstuffing or
  the check that the unstuffed payload has at least 4 bytes.
\<close>

theorem C10_short_frames_rejected:
  assumes "length rawFrame < 6"
  shows "\<exists>e. parseFrame rawFrame = Inl e
           \<and> (e = FrameTooSmall \<longleftrightarrow> length rawFrame < 4)
           \<and> (e = FrameTooSmall \<or> e = BadFlags \<or> e = PayloadTooSmall
                \<or> (\<exists>u. e = UnstuffingFailed u))"
proof -
  have "length payload < 4"
    if "bitUnstuff (take (length rawFrame - 2) (drop 1 rawFrame)) = Inr payload" for payload
    using bitUnstuff_loop_length [of "take (length rawFrame - 2) (drop 1 rawFrame)" "[]" payload]
      that assms
    by (simp add: bitUnstuff_eq_loop)
  then show ?thesis
    by (simp add: parseFrame_def Let_def split: sum.split)
qed

theorem C10_short_frames_rejected_witness:
  "length [0x7e, 0x01, 0x00, 0x7e :: byte] < 6
     \<and> (\<exists>e. parseFrame [0x7e, 0x01, 0x00, 0x7e] = Inl e
           \<and> (e = FrameTooSmall \<longleftrightarrow> length [0x7e, 0x01, 0x00, 0x7e :: byte] < 4)
           \<and> (e = FrameTooSmall \<or> e = BadFlags \<or> e = PayloadTooSmall
                \<or> (\<exists>u. e = UnstuffingFailed u)))"
  using C10_short_frames_rejected [of "[0x7e, 0x01, 0x00, 0x7e]"]
  by simp

section \<open>Properties of the sliding window\<close>

lemma js_rem_nonneg: "0 \<le> a \<Longrightarrow> js_rem a b = a mod \<bar>b\<bar>"
  by (cases "a = 0") (simp_all add: js_rem_def)

lemma seqNumDiff_small:
  assumes "a < 16" "b < 16"
  shows "seqNumDiff a b =
           (if (int a - int b) mod 16 > 8 then (int a - int b) mod 16 - 16
            else (int a - int b) mod 16)"
proof -
  have "0 \<le> int a - int b + int MAX_SEQ_NUM + 1"
    using assms by (simp add: MAX_SEQ_NUM_def)
  then have "js_rem (int a - int b + int MAX_SEQ_NUM + 1) (int MAX_SEQ_NUM + 1)
               = (int a - int b + int MAX_SEQ_NUM + 1) mod \<bar>int MAX_SEQ_NUM + 1\<bar>"
    by (rule js_rem_nonneg)
  also have "\<dots> = (int a - int b) mod 16"
    by (simp add: MAX_SEQ_NUM_def)
  finally have eq: "js_rem (int a - int b + int MAX_SEQ_NUM + 1) (int MAX_SEQ_NUM + 1)
               = (int a - int b) mod 16" .
  show ?thesis
    unfolding seqNumDiff_def eq by (simp add: MAX_SEQ_NUM_def Let_def)
qed

lemma seqNumDiff_self: "a < 16 \<Longrightarrow> seqNumDiff a a = 0"
  by (simp add: seqNumDiff_small)

lemma seqNumDiff_range: "a < 16 \<Longrightarrow> b < 16 \<Longrightarrow> - 7 \<le> seqNumDiff a b \<and> seqNumDiff a b \<le> 8"
proof -
  assume ab: "a < 16" "b < 16"
  define d where "d = (int a - int b) mod 16"
  have "0 \<le> d" "d < 16" by (simp_all add: d_def)
  moreover have "seqNumDiff a b = (if d > 8 then d - 16 else d)"
    unfolding d_def by (rule seqNumDiff_small [OF ab])
  ultimately show ?thesis by (simp split: if_splits)
qed

lemma nextSeqNum_less: "nextSeqNum a < 16"
  by (simp add: nextSeqNum_def MAX_SEQ_NUM_def)

lemma int_nextSeqNum: "int (nextSeqNum a) = (int a + 1) mod 16"
  by (simp add: nextSeqNum_def MAX_SEQ_NUM_def zmod_int add.commute)

lemma seqNumDiff_next:
  assumes "a < 16" "b < 16" "0 \<le> seqNumDiff a b" "seqNumDiff a b < 8"
  shows "seqNumDiff (nextSeqNum a) b = seqNumDiff a b + 1"
proof -
  define d where "d = (int a - int b) mod 16"
  have d: "0 \<le> d" "d < 16" by (simp_all add: d_def)
  have old: "seqNumDiff a b = (if d > 8 then d - 16 else d)"
    unfolding d_def by (rule seqNumDiff_small [OF assms(1,2)])
  with assms(3,4) d have d8: "d < 8" "seqNumDiff a b = d"
    by (simp_all split: if_splits)
  have "((int a + 1) mod 16 - int b) mod 16 = (int a + 1 - int b) mod 16"
    by (rule mod_diff_left_eq)
  also have "int a + 1 - int b = (int a - int b) + 1" by simp
  also have "((int a - int b) + 1) mod 16 = (d + 1) mod 16"
    unfolding d_def by (simp add: mod_add_left_eq)
  also have "\<dots> = d + 1" using d d8 by simp
  finally have new: "(int (nextSeqNum a) - int b) mod 16 = d + 1"
    by (simp add: int_nextSeqNum)
  show ?thesis
    unfolding seqNumDiff_small [OF nextSeqNum_less assms(2)] new d8(2)
    using d8(1) by simp
qed

lemma consecutiveFrom_append:
  "consecutiveFrom e (xs @ ys) \<longleftrightarrow>
     consecutiveFrom e xs \<and> consecutiveFrom ((nextSeqNum ^^ length xs) e) ys"
  by (induction xs arbitrary: e) (auto simp: funpow_swap1)

lemma nextSeqNum_funpow: "e < 16 \<Longrightarrow> (nextSeqNum ^^ n) e = (e + n) mod 16"
proof (induction n)
  case 0
  then show ?case by simp
next
  case (Suc n)
  then show ?case
    by (simp add: nextSeqNum_def MAX_SEQ_NUM_def mod_Suc_eq)
qed

lemma consecutiveFrom_map:
  "e < 16 \<Longrightarrow> consecutiveFrom e xs \<longleftrightarrow> xs = map (\<lambda>i. (e + i) mod 16) [0..<length xs]"
proof (induction xs arbitrary: e rule: rev_induct)
  case Nil
  show ?case by simp
next
  case (snoc x xs)
  show ?case
    using snoc.IH [OF snoc.prems] snoc.prems
    by (auto simp: consecutiveFrom_append nextSeqNum_funpow)
qed

lemma no_hole_update:
  "Undefined \<notin> set xs \<Longrightarrow> v \<noteq> Undefined \<Longrightarrow> Undefined \<notin> set (xs[i := v])"
  using set_update_subset_insert [of xs i v] by auto

lemma filledCount_le: "filledCount xs \<le> length xs"
  by (induction xs rule: filledCount.induct) simp_all

lemma filledCount_update:
  "i < length xs \<Longrightarrow> xs ! i = Filled v \<Longrightarrow> filledCount (xs[i := Null]) < filledCount xs"
proof (induction xs arbitrary: i)
  case Nil
  then show ?case by simp
next
  case (Cons c xs)
  show ?case
  proof (cases i)
    case 0
    with Cons.prems show ?thesis by simp
  next
    case (Suc j)
    with Cons.prems have "filledCount (xs[j := Null]) < filledCount xs"
      by (simp add: Cons.IH)
    with Suc show ?thesis by (cases c) simp_all
  qed
qed


lemma deliverLoop_spec:
  "receiver_ok wm \<Longrightarrow>
     \<exists>wm' frames. deliverLoop wm acc = Inr (wm', acc @ frames) \<and> loop_post wm wm' frames"
proof (induction wm acc rule: deliverLoop.induct)
  case (1 wm delivered)
  let ?e = "w_expectedSeqNum wm"
  let ?buf = "w_receiveBuffer wm"
  from "1.prems" have e: "?e < 16" and len: "length ?buf = 16" and nu: "Undefined \<notin> set ?buf"
    by (simp_all add: receiver_ok_def)
  have get: "js_get ?buf ?e = ?buf ! ?e"
    using e len by (simp add: js_get_def)
  have notU: "?buf ! ?e \<noteq> Undefined"
    using nu e len by (metis nth_mem)
  show ?case
  proof (cases "?buf ! ?e")
    case Undefined
    with notU show ?thesis by simp
  next
    case Null
    then have "deliverLoop wm delivered = Inr (wm, delivered @ [])"
      by (subst deliverLoop.simps) (simp add: get)
    moreover have "loop_post wm wm []"
      using "1.prems" Null e by (simp add: loop_post_def)
    ultimately show ?thesis by blast
  next
    case (Filled frameData)
    define wm1 where "wm1 = wm\<lparr>w_receiveBuffer := js_set ?buf ?e Null,
                 w_expectedSeqNum := nextSeqNum ?e,
                 w_receivedMask := signed_drop_bit 1 (w_receivedMask wm)\<rparr>"
    have set1: "js_set ?buf ?e Null = ?buf[?e := Null]"
      using e len by (simp add: js_set_def)
    have ok1: "receiver_ok wm1"
      using e len nu
      by (simp add: wm1_def receiver_ok_def set1 nextSeqNum_less no_hole_update)
    from "1.IH" [of frameData, folded wm1_def, OF _ ok1] Filled get
    obtain wm' frames where rec: "deliverLoop wm1 (delivered @ [(?e, frameData)])
          = Inr (wm', (delivered @ [(?e, frameData)]) @ frames)"
      and post: "loop_post wm1 wm' frames"
      by auto
    have unfold: "deliverLoop wm delivered = deliverLoop wm1 (delivered @ [(?e, frameData)])"
      by (subst deliverLoop.simps) (simp add: get Filled wm1_def)
    have res: "deliverLoop wm delivered = Inr (wm', delivered @ ((?e, frameData) # frames))"
      using unfold rec by simp
    have cnt: "filledCount (w_receiveBuffer wm1) < filledCount ?buf"
      using filledCount_update [of ?e ?buf frameData] e len Filled
      by (simp add: wm1_def set1)
    have e1: "w_expectedSeqNum wm1 = nextSeqNum ?e" by (simp add: wm1_def)
    have b1: "w_receiveBuffer wm1 = ?buf[?e := Null]" by (simp add: wm1_def set1)
    have cleared_e: "w_receiveBuffer wm' ! ?e = Null"
      using post e len by (simp add: loop_post_def b1)
    have pay: "\<forall>(q, d) \<in> set frames. ?buf ! q = Filled d"
    proof (clarify)
      fix q d assume qd: "(q, d) \<in> set frames"
      with post have "q < 16" and "?buf[?e := Null] ! q = Filled d"
        by (auto simp: loop_post_def b1)
      then show "?buf ! q = Filled d"
        using len e by (auto simp: nth_list_update split: if_splits)
    qed
    have rest: "consecutiveFrom (nextSeqNum ?e) (map fst frames)"
      "w_expectedSeqNum wm' = (nextSeqNum ?e + length frames) mod 16"
      "receiver_ok wm'" "length frames \<le> filledCount (?buf[?e := Null])"
      "\<forall>i < 16. ?buf[?e := Null] ! i = Null \<longrightarrow> w_receiveBuffer wm' ! i = Null"
      "\<forall>q \<in> set (map fst frames). w_receiveBuffer wm' ! q = Null"
      "\<forall>(q, d) \<in> set frames. q < 16"
      "w_receiveBuffer wm' ! w_expectedSeqNum wm' = Null"
      "w_windowSize wm' = w_windowSize wm" "w_sendBase wm' = w_sendBase wm"
      "w_nextSeqNum wm' = w_nextSeqNum wm" "w_stats wm' = w_stats wm"
      "w_events wm' = w_events wm"
      "w_framesDeliveredListeners wm' = w_framesDeliveredListeners wm"
      using post unfolding loop_post_def e1 b1 by (elim conjE; simp add: wm1_def)+
    have keep: "\<forall>i < 16. ?buf ! i = Null \<longrightarrow> w_receiveBuffer wm' ! i = Null"
    proof (intro allI impI)
      fix i assume i: "i < 16" and n: "?buf ! i = Null"
      with Filled have "i \<noteq> ?e" by auto
      with n have "?buf[?e := Null] ! i = Null" by simp
      with rest(5) i show "w_receiveBuffer wm' ! i = Null" by blast
    qed
    have adv: "w_expectedSeqNum wm' = (?e + length ((?e, frameData) # frames)) mod 16"
      using rest(2) by (simp add: nextSeqNum_def MAX_SEQ_NUM_def mod_simps)
    have c1: "consecutiveFrom ?e (map fst ((?e, frameData) # frames))"
      using rest(1) by simp
    have c4: "length ((?e, frameData) # frames) \<le> filledCount ?buf"
      using rest(4) cnt by (simp add: b1)
    have c6: "\<forall>q \<in> set (map fst ((?e, frameData) # frames)). w_receiveBuffer wm' ! q = Null"
      using rest(6) cleared_e by simp
    have c7: "\<forall>(q, d) \<in> set ((?e, frameData) # frames). q < 16"
      using rest(7) e by simp
    have c8: "(case ?buf ! ?e of
          Filled d \<Rightarrow> (?e, frameData) # frames \<noteq> [] \<and> hd ((?e, frameData) # frames) = (?e, d)
        | _ \<Rightarrow> (?e, frameData) # frames = [])"
      using Filled by simp
    have c16: "\<forall>(q, d) \<in> set ((?e, frameData) # frames). ?buf ! q = Filled d"
      using pay Filled by simp
    have "loop_post wm wm' ((?e, frameData) # frames)"
      unfolding loop_post_def
      by (intro conjI c1 adv rest(3) c4 keep c6 c7 c8 rest(8) rest(9) rest(10) rest(11)
            rest(12) rest(13) rest(14) c16)
    with res show ?thesis by blast
  qed
qed

lemma distinct_consecutive:
  assumes "n \<le> 16"
  shows "distinct (map (\<lambda>i. (e + i) mod 16) [0..<n])"
proof -
  have aux: "a = b" if "a \<le> b" "b < 16" "(e + a) mod 16 = (e + b) mod 16" for a b :: nat
  proof -
    have le: "e + a \<le> e + b" using that(1) by simp
    have "(e + b) mod 16 = (e + a) mod 16" using that(3) by (rule sym)
    then have "16 dvd (e + b) - (e + a)"
      using mod_eq_dvd_iff_nat [OF le, of 16] by blast
    then have "16 dvd b - a" by simp
    moreover have "b - a < 16" using that(2) by arith
    ultimately have "b - a = 0"
      by (meson dvd_imp_le not_less zero_less_iff_neq_zero)
    then show ?thesis using that(1) by arith
  qed
  have "inj_on (\<lambda>i. (e + i) mod 16) {0..<n}"
  proof (rule inj_onI)
    fix i j assume i: "i \<in> {0..<n}" and j: "j \<in> {0..<n}"
      and eq: "(e + i) mod 16 = (e + j) mod 16"
    from i j assms have i16: "i < 16" and j16: "j < 16" by simp_all
    show "i = j"
    proof (cases "i \<le> j")
      case True
      then show ?thesis using j16 eq by (rule aux)
    next
      case False
      then have "j \<le> i" by simp
      then have "j = i" using i16 eq [symmetric] by (rule aux)
      then show ?thesis by (rule sym)
    qed
  qed
  then show ?thesis by (simp add: distinct_map)
qed

lemma receiver_ok_store:
  assumes "receiver_ok wm" "seqNum < 16"
  shows "receiver_ok (wm\<lparr>w_receiveBuffer := js_set (w_receiveBuffer wm) seqNum (Filled data),
                          w_receivedMask := m\<rparr>)"
  using assms
  by (simp add: receiver_ok_def js_set_def no_hole_update)


lemma runFramesDeliveredListeners_eq:
  "runFramesDeliveredListeners ls payload = (if ls = [] then None else Some TypeError)"
  by (induction ls payload rule: runFramesDeliveredListeners.induct) simp_all

text \<open>
  An in-order frame, whatever listeners there are: the loop takes the frame and its
  successors out of the buffer and advances the expected number; then the event is
  emitted, and the call returns \<open>Delivered\<close> when no listener is attached and throws
  otherwise.
\<close>

lemma receiveFrame_expected_core:
  assumes ok: "receiver_ok wm" and seq: "seqNum = w_expectedSeqNum wm"
    and win: "0 < w_windowSize wm"
  shows "\<exists>frames wm'.
           receiveFrame seqNum data wm
             = (if w_framesDeliveredListeners wm = []
                then Inr (Delivered frames (w_expectedSeqNum wm'), wm')
                else Inl (TypeError, wm'))
           \<and> receiver_ok wm' \<and> frames \<noteq> [] \<and> hd frames = (seqNum, data)
           \<and> consecutiveFrom (w_expectedSeqNum wm) (map fst frames)
           \<and> length frames \<le> 16
           \<and> w_expectedSeqNum wm' = (w_expectedSeqNum wm + length frames) mod 16
           \<and> (\<forall>q \<in> set (map fst frames). js_get (w_receiveBuffer wm') q = Null)
           \<and> js_get (w_receiveBuffer wm') (w_expectedSeqNum wm') = Null
           \<and> (\<forall>(q, d) \<in> set frames.
                  if q = seqNum then d = data else js_get (w_receiveBuffer wm) q = Filled d)
           \<and> w_framesDeliveredListeners wm' = w_framesDeliveredListeners wm
           \<and> w_events wm' = w_events wm
                @ [FramesDelivered (length frames) (Some seqNum)
                     (Some (fst (frames ! (length frames - 1)))) (w_expectedSeqNum wm')]"
proof -
  let ?e = "w_expectedSeqNum wm"
  from ok have e: "?e < 16" and len: "length (w_receiveBuffer wm) = 16"
    by (simp_all add: receiver_ok_def)
  define wm2 where "wm2 = wm\<lparr>w_stats := (w_stats wm)\<lparr>framesReceived :=
                                     framesReceived (w_stats wm) + 1\<rparr>,
      w_receiveBuffer := js_set (w_receiveBuffer wm) seqNum (Filled data),
      w_receivedMask := w_receivedMask wm OR push_bit (nat (seqNumDiff seqNum ?e) mod 32) 1\<rparr>"
  have ok2: "receiver_ok wm2"
    using receiver_ok_store [OF ok, where seqNum = seqNum and data = data] e seq
    by (simp add: wm2_def receiver_ok_def)
  have e2: "w_expectedSeqNum wm2 = ?e" by (simp add: wm2_def)
  have b2: "w_receiveBuffer wm2 = (w_receiveBuffer wm)[seqNum := Filled data]"
    using e len seq by (simp add: wm2_def js_set_def)
  have slot: "w_receiveBuffer wm2 ! ?e = Filled data"
    using e len seq by (simp add: b2)
  have l2: "w_framesDeliveredListeners wm2 = w_framesDeliveredListeners wm"
    and ev2: "w_events wm2 = w_events wm"
    by (simp_all add: wm2_def)
  have rf: "receiveFrame seqNum data wm = deliverFramesInOrder wm2"
    using e seq win
    by (simp add: receiveFrame_def Let_def seqNumDiff_self wm2_def)
  from deliverLoop_spec [OF ok2, of "[]"]
  obtain wm1 frames where dl: "deliverLoop wm2 [] = Inr (wm1, frames)"
    and post: "loop_post wm2 wm1 frames"
    by auto
  from post slot have ne: "frames \<noteq> []" and hd: "hd frames = (seqNum, data)"
    by (simp_all add: loop_post_def e2 seq)
  from ne hd have first: "fst (frames ! 0) = seqNum"
    by (cases frames) simp_all
  let ?payload = "FramesDelivered (length frames) (Some seqNum)
                    (Some (fst (frames ! (length frames - 1)))) (w_expectedSeqNum wm1)"
  let ?wm' = "wm_emit ?payload wm1"
  have l1: "w_framesDeliveredListeners wm1 = w_framesDeliveredListeners wm"
    using post by (simp add: loop_post_def l2)
  have res: "receiveFrame seqNum data wm
             = (if w_framesDeliveredListeners wm = []
                then Inr (Delivered frames (w_expectedSeqNum ?wm'), ?wm')
                else Inl (TypeError, ?wm'))"
    using ne first l1
    by (simp add: rf deliverFramesInOrder_def dl emitFramesDelivered_def Let_def
          runFramesDeliveredListeners_eq wm_emit_def)
  have len16: "length frames \<le> 16"
  proof -
    have "length frames \<le> filledCount (w_receiveBuffer wm2)"
      using post by (simp add: loop_post_def)
    also have "\<dots> \<le> length (w_receiveBuffer wm2)" by (rule filledCount_le)
    also have "\<dots> = 16" using ok2 by (simp add: receiver_ok_def)
    finally show ?thesis .
  qed
  have ok': "receiver_ok ?wm'"
    using post by (simp add: loop_post_def receiver_ok_def wm_emit_def)
  have cleared: "\<forall>q \<in> set (map fst frames). js_get (w_receiveBuffer ?wm') q = Null"
    using post ok'
    by (auto simp: loop_post_def js_get_def wm_emit_def receiver_ok_def)
  have stop: "js_get (w_receiveBuffer ?wm') (w_expectedSeqNum ?wm') = Null"
    using post ok'
    by (auto simp: loop_post_def js_get_def wm_emit_def receiver_ok_def)
  have pay: "\<forall>(q, d) \<in> set frames.
               if q = seqNum then d = data else js_get (w_receiveBuffer wm) q = Filled d"
  proof (clarify)
    fix q d assume "(q, d) \<in> set frames"
    with post have "q < 16" and "w_receiveBuffer wm2 ! q = Filled d"
      by (auto simp: loop_post_def)
    then show "if q = seqNum then d = data else js_get (w_receiveBuffer wm) q = Filled d"
      using e len seq by (auto simp: b2 js_get_def nth_list_update split: if_splits)
  qed
  have adv: "w_expectedSeqNum ?wm' = (?e + length frames) mod 16"
    using post by (simp add: loop_post_def e2 wm_emit_def)
  have cons: "consecutiveFrom ?e (map fst frames)"
    using post by (simp add: loop_post_def e2)
  have l': "w_framesDeliveredListeners ?wm' = w_framesDeliveredListeners wm"
    using l1 by (simp add: wm_emit_def)
  have ev': "w_events ?wm' = w_events wm @ [FramesDelivered (length frames) (Some seqNum)
                     (Some (fst (frames ! (length frames - 1)))) (w_expectedSeqNum ?wm')]"
    using post by (simp add: loop_post_def ev2 wm_emit_def)
  show ?thesis
    by (intro exI [of _ frames] exI [of _ ?wm'] conjI res ok' ne hd cons len16 adv cleared
          stop pay l' ev')
qed

lemma receiveFrame_expected:
  assumes ok: "receiver_ok wm" and seq: "seqNum = w_expectedSeqNum wm"
    and win: "0 < w_windowSize wm" and nl: "w_framesDeliveredListeners wm = []"
  shows "\<exists>frames wm'. receiveFrame seqNum data wm = Inr (Delivered frames (w_expectedSeqNum wm'), wm')
           \<and> receiver_ok wm' \<and> frames \<noteq> [] \<and> hd frames = (seqNum, data)
           \<and> consecutiveFrom (w_expectedSeqNum wm) (map fst frames)
           \<and> length frames \<le> 16
           \<and> w_expectedSeqNum wm' = (w_expectedSeqNum wm + length frames) mod 16
           \<and> (\<forall>q \<in> set (map fst frames). js_get (w_receiveBuffer wm') q = Null)
           \<and> js_get (w_receiveBuffer wm') (w_expectedSeqNum wm') = Null
           \<and> (\<forall>(q, d) \<in> set frames.
                  if q = seqNum then d = data else js_get (w_receiveBuffer wm) q = Filled d)
           \<and> w_framesDeliveredListeners wm' = []"
proof -
  from receiveFrame_expected_core [OF ok seq win, of data]
  obtain frames wm' where
    r: "receiveFrame seqNum data wm
             = (if w_framesDeliveredListeners wm = []
                then Inr (Delivered frames (w_expectedSeqNum wm'), wm')
                else Inl (TypeError, wm'))"
    and f: "receiver_ok wm'" "frames \<noteq> []" "hd frames = (seqNum, data)"
      "consecutiveFrom (w_expectedSeqNum wm) (map fst frames)"
      "length frames \<le> 16"
      "w_expectedSeqNum wm' = (w_expectedSeqNum wm + length frames) mod 16"
      "\<forall>q \<in> set (map fst frames). js_get (w_receiveBuffer wm') q = Null"
      "js_get (w_receiveBuffer wm') (w_expectedSeqNum wm') = Null"
      "\<forall>(q, d) \<in> set frames.
          if q = seqNum then d = data else js_get (w_receiveBuffer wm) q = Filled d"
    and l: "w_framesDeliveredListeners wm' = w_framesDeliveredListeners wm"
    by blast
  from r nl have r': "receiveFrame seqNum data wm = Inr (Delivered frames (w_expectedSeqNum wm'), wm')"
    by simp
  from l nl have l': "w_framesDeliveredListeners wm' = []" by simp
  show ?thesis
    by (intro exI [of _ frames] exI [of _ wm'] conjI r' f l')
qed

lemma receiveFrame_buffered:
  assumes ok: "receiver_ok wm" and seq: "seqNum < 16" "seqNum \<noteq> w_expectedSeqNum wm"
    and win: "0 \<le> seqNumDiff seqNum (w_expectedSeqNum wm)"
      "seqNumDiff seqNum (w_expectedSeqNum wm) < int (w_windowSize wm)"
  shows "\<exists>wm'. receiveFrame seqNum data wm = Inr (Buffered seqNum (w_expectedSeqNum wm), wm')
           \<and> receiver_ok wm' \<and> js_get (w_receiveBuffer wm') seqNum = Filled data
           \<and> w_expectedSeqNum wm' = w_expectedSeqNum wm
           \<and> w_framesDeliveredListeners wm' = w_framesDeliveredListeners wm"
  using assms
  by (simp add: receiveFrame_def Let_def wm_emit_def receiver_ok_def js_get_def js_set_def
        no_hole_update)

lemma receiveFrame_step:
  assumes ok: "receiver_ok wm" and seq: "seqNum < 16"
    and nl: "w_framesDeliveredListeners wm = []"
  shows "\<exists>result wm'. receiveFrame seqNum data wm = Inr (result, wm') \<and> receiver_ok wm'
           \<and> w_framesDeliveredListeners wm' = []
           \<and> consecutiveFrom (w_expectedSeqNum wm) (map fst (deliveredOf result))
           \<and> w_expectedSeqNum wm' = (w_expectedSeqNum wm + length (deliveredOf result)) mod 16"
proof -
  let ?e = "w_expectedSeqNum wm"
  from ok have e: "?e < 16" by (simp add: receiver_ok_def)
  consider (dup) "seqNumDiff seqNum ?e < 0"
    | (oow) "0 \<le> seqNumDiff seqNum ?e" "int (w_windowSize wm) \<le> seqNumDiff seqNum ?e"
    | (exp) "0 \<le> seqNumDiff seqNum ?e" "seqNumDiff seqNum ?e < int (w_windowSize wm)" "seqNum = ?e"
    | (buf) "0 \<le> seqNumDiff seqNum ?e" "seqNumDiff seqNum ?e < int (w_windowSize wm)" "seqNum \<noteq> ?e"
    by linarith
  then show ?thesis
  proof cases
    case dup
    then show ?thesis
      using ok e nl by (simp add: receiveFrame_def Let_def deliveredOf_def receiver_ok_def)
  next
    case oow
    then show ?thesis
      using ok e nl by (simp add: receiveFrame_def Let_def deliveredOf_def receiver_ok_def)
  next
    case exp
    then have "0 < w_windowSize wm" by simp
    from receiveFrame_expected [OF ok exp(3) this nl, of data]
    show ?thesis by (auto simp: deliveredOf_def)
  next
    case buf
    from receiveFrame_buffered [OF ok seq buf(3) buf(1,2), of data] e nl
    show ?thesis by (auto simp: deliveredOf_def)
  qed
qed

lemma receiveAll_spec:
  assumes "receiver_ok wm" "w_framesDeliveredListeners wm = []" "\<forall>(q, d) \<in> set fs. q < 16"
  shows "\<exists>del wm'. receiveAll fs wm = Inr (del, wm') \<and> receiver_ok wm'
           \<and> consecutiveFrom (w_expectedSeqNum wm) (map fst del)
           \<and> w_expectedSeqNum wm' = (w_expectedSeqNum wm + length del) mod 16"
  using assms
proof (induction fs arbitrary: wm)
  case Nil
  then show ?case by (simp add: receiver_ok_def)
next
  case (Cons f fs)
  obtain seqNum data where f: "f = (seqNum, data)" by (cases f)
  with Cons.prems have seq: "seqNum < 16" and rest: "\<forall>(q, d) \<in> set fs. q < 16" by auto
  from receiveFrame_step [OF Cons.prems(1) seq Cons.prems(2), of data]
  obtain result wm1 where r1: "receiveFrame seqNum data wm = Inr (result, wm1)"
    and ok1: "receiver_ok wm1" and nl1: "w_framesDeliveredListeners wm1 = []"
    and c1: "consecutiveFrom (w_expectedSeqNum wm) (map fst (deliveredOf result))"
    and e1: "w_expectedSeqNum wm1 = (w_expectedSeqNum wm + length (deliveredOf result)) mod 16"
    by blast
  from Cons.IH [OF ok1 nl1 rest]
  obtain later wm2 where r2: "receiveAll fs wm1 = Inr (later, wm2)"
    and ok2: "receiver_ok wm2"
    and c2: "consecutiveFrom (w_expectedSeqNum wm1) (map fst later)"
    and e2: "w_expectedSeqNum wm2 = (w_expectedSeqNum wm1 + length later) mod 16"
    by blast
  from Cons.prems(1) have e: "w_expectedSeqNum wm < 16" by (simp add: receiver_ok_def)
  have res: "receiveAll (f # fs) wm = Inr (deliveredOf result @ later, wm2)"
    by (simp add: f r1 r2 deliveredOf_def)
  have "consecutiveFrom (w_expectedSeqNum wm) (map fst (deliveredOf result @ later))"
    using c1 c2 e by (simp add: consecutiveFrom_append nextSeqNum_funpow e1)
  moreover have "w_expectedSeqNum wm2
      = (w_expectedSeqNum wm + length (deliveredOf result @ later)) mod 16"
    by (simp add: e2 e1 mod_simps add.assoc)
  ultimately show ?case using res ok2 by blast
qed

text \<open>
  Claim C4. In a sender state with a base below 16 and a window of at most 8,
  \<open>processAck\<close> on a sequence number below 16 leaves the base unchanged when the
  signed distance \<open>d\<close> from the base is negative (duplicate) or at least the window
  size (out of window), and otherwise sets the base to \<open>(ackSeqNum + 1) mod 16\<close>,
  a slide of distance \<open>d + 1\<close>, between 1 and the window size. So the new base is
  never behind the old one in the signed distance, and the state stays of this kind.
\<close>

theorem C4_processAck_never_regresses:
  assumes "w_sendBase wm < 16" "ackSeqNum < 16" "w_windowSize wm \<le> WINDOW_SIZE"
  shows "(if seqNumDiff ackSeqNum (w_sendBase wm) < 0
          then processAck ackSeqNum wm = (AckDuplicate ackSeqNum (w_sendBase wm), wm)
          else if seqNumDiff ackSeqNum (w_sendBase wm) \<ge> int (w_windowSize wm)
          then processAck ackSeqNum wm = (AckOutOfWindow ackSeqNum (w_sendBase wm), wm)
          else fst (processAck ackSeqNum wm)
                 = AckAccepted ackSeqNum (w_sendBase wm) ((ackSeqNum + 1) mod 16)
                     (seqNumDiff ackSeqNum (w_sendBase wm) + 1)
               \<and> w_sendBase (snd (processAck ackSeqNum wm)) = (ackSeqNum + 1) mod 16
               \<and> seqNumDiff (w_sendBase (snd (processAck ackSeqNum wm))) (w_sendBase wm)
                   = seqNumDiff ackSeqNum (w_sendBase wm) + 1
               \<and> 1 \<le> seqNumDiff (w_sendBase (snd (processAck ackSeqNum wm))) (w_sendBase wm))
         \<and> 0 \<le> seqNumDiff (w_sendBase (snd (processAck ackSeqNum wm))) (w_sendBase wm)
         \<and> seqNumDiff (w_sendBase (snd (processAck ackSeqNum wm))) (w_sendBase wm)
             \<le> int (w_windowSize wm)
         \<and> w_sendBase (snd (processAck ackSeqNum wm)) < 16
         \<and> w_windowSize (snd (processAck ackSeqNum wm)) = w_windowSize wm"
proof -
  let ?d = "seqNumDiff ackSeqNum (w_sendBase wm)"
  consider (dup) "?d < 0" | (oow) "0 \<le> ?d" "int (w_windowSize wm) \<le> ?d"
    | (acc) "0 \<le> ?d" "?d < int (w_windowSize wm)"
    by linarith
  then show ?thesis
  proof cases
    case dup
    then show ?thesis
      using assms(1) by (simp add: processAck_def Let_def seqNumDiff_self)
  next
    case oow
    then show ?thesis
      using assms(1) by (simp add: processAck_def Let_def seqNumDiff_self)
  next
    case acc
    from acc(2) assms(3) have "?d < 8" by (simp add: WINDOW_SIZE_def)
    from seqNumDiff_next [OF assms(2,1) acc(1) this]
    have nxt: "seqNumDiff (nextSeqNum ackSeqNum) (w_sendBase wm) = ?d + 1" .
    have n16: "nextSeqNum ackSeqNum = (ackSeqNum + 1) mod 16"
      by (simp add: nextSeqNum_def MAX_SEQ_NUM_def)
    show ?thesis
      using acc nxt nextSeqNum_less [of ackSeqNum]
      by (simp add: processAck_def Let_def wm_emit_def n16)
  qed
qed

theorem C4_processAck_never_regresses_witness:
  "w_sendBase new_WindowManager < 16 \<and> (2::nat) < 16
     \<and> w_windowSize new_WindowManager \<le> WINDOW_SIZE
     \<and> fst (processAck 2 new_WindowManager) = AckAccepted 2 0 3 3
     \<and> w_sendBase (snd (processAck 2 new_WindowManager)) = 3
     \<and> seqNumDiff (w_sendBase (snd (processAck 2 new_WindowManager)))
          (w_sendBase new_WindowManager) = 3"
proof -
  have d: "seqNumDiff 2 0 = 2" "seqNumDiff 3 0 = 3"
    by (simp_all add: seqNumDiff_small)
  have w: "w_sendBase new_WindowManager = 0" "w_windowSize new_WindowManager = 8"
    by (simp_all add: new_WindowManager_def WINDOW_SIZE_def)
  show ?thesis
    using C4_processAck_never_regresses [of new_WindowManager 2]
    by (simp add: w d WINDOW_SIZE_def)
qed

text \<open>
  On a window manager without a listener on \<open>frames_delivered\<close>, the receiver
  delivers in order. From a proper receiver state, \<open>receiveFrame\<close> on an
  in-window frame returns \<open>Delivered\<close> exactly when the sequence number is the expected
  one; the delivered list starts with the frame itself, carries consecutive sequence
  numbers modulo 16 from the old expected number, without repeats, with the payloads the
  buffer held, and ends before the first empty slot; every delivered slot is cleared and
  the expected number has advanced once per delivered frame. An in-window frame that is
  not the expected one is stored and \<open>Buffered\<close> is returned, with \<open>shouldAck\<close> false
  and the expected number unchanged. Over any run of frames the delivered sequence
  numbers are consecutive modulo 16 from the first expected number.
\<close>

lemma receiveFrame_in_order_without_listener:
  assumes "receiver_ok wm" "w_framesDeliveredListeners wm = []"
  shows "(\<forall>seqNum data.
            seqNum < 16 \<and> 0 \<le> seqNumDiff seqNum (w_expectedSeqNum wm)
              \<and> seqNumDiff seqNum (w_expectedSeqNum wm) < int (w_windowSize wm) \<longrightarrow>
            (\<exists>result wm'. receiveFrame seqNum data wm = Inr (result, wm') \<and>
               (if seqNum = w_expectedSeqNum wm
                then \<exists>frames. result = Delivered frames (w_expectedSeqNum wm')
                       \<and> frames \<noteq> [] \<and> hd frames = (seqNum, data)
                       \<and> map fst frames
                           = map (\<lambda>i. (w_expectedSeqNum wm + i) mod 16) [0..<length frames]
                       \<and> distinct (map fst frames)
                       \<and> w_expectedSeqNum wm' = (w_expectedSeqNum wm + length frames) mod 16
                       \<and> (\<forall>q \<in> set (map fst frames). js_get (w_receiveBuffer wm') q = Null)
                       \<and> js_get (w_receiveBuffer wm') (w_expectedSeqNum wm') = Null
                       \<and> (\<forall>(q, d) \<in> set frames.
                              if q = seqNum then d = data
                              else js_get (w_receiveBuffer wm) q = Filled d)
                else result = Buffered seqNum (w_expectedSeqNum wm) \<and> \<not> shouldAck result
                       \<and> js_get (w_receiveBuffer wm') seqNum = Filled data
                       \<and> w_expectedSeqNum wm' = w_expectedSeqNum wm)))
       \<and> (\<forall>fs. (\<forall>(q, d) \<in> set fs. q < 16) \<longrightarrow>
            (\<exists>del wm'. receiveAll fs wm = Inr (del, wm')
               \<and> map fst del = map (\<lambda>i. (w_expectedSeqNum wm + i) mod 16) [0..<length del]
               \<and> w_expectedSeqNum wm' = (w_expectedSeqNum wm + length del) mod 16))"
proof (intro conjI allI impI)
  fix seqNum data
  assume h: "seqNum < 16 \<and> 0 \<le> seqNumDiff seqNum (w_expectedSeqNum wm)
              \<and> seqNumDiff seqNum (w_expectedSeqNum wm) < int (w_windowSize wm)"
  from assms have e: "w_expectedSeqNum wm < 16" by (simp add: receiver_ok_def)
  show "\<exists>result wm'. receiveFrame seqNum data wm = Inr (result, wm') \<and>
               (if seqNum = w_expectedSeqNum wm
                then \<exists>frames. result = Delivered frames (w_expectedSeqNum wm')
                       \<and> frames \<noteq> [] \<and> hd frames = (seqNum, data)
                       \<and> map fst frames
                           = map (\<lambda>i. (w_expectedSeqNum wm + i) mod 16) [0..<length frames]
                       \<and> distinct (map fst frames)
                       \<and> w_expectedSeqNum wm' = (w_expectedSeqNum wm + length frames) mod 16
                       \<and> (\<forall>q \<in> set (map fst frames). js_get (w_receiveBuffer wm') q = Null)
                       \<and> js_get (w_receiveBuffer wm') (w_expectedSeqNum wm') = Null
                       \<and> (\<forall>(q, d) \<in> set frames.
                              if q = seqNum then d = data
                              else js_get (w_receiveBuffer wm) q = Filled d)
                else result = Buffered seqNum (w_expectedSeqNum wm) \<and> \<not> shouldAck result
                       \<and> js_get (w_receiveBuffer wm') seqNum = Filled data
                       \<and> w_expectedSeqNum wm' = w_expectedSeqNum wm)"
  proof (cases "seqNum = w_expectedSeqNum wm")
    case True
    from h have "0 < w_windowSize wm" by linarith
    from receiveFrame_expected [OF assms(1) True this assms(2), of data]
    obtain frames wm' where
      r: "receiveFrame seqNum data wm = Inr (Delivered frames (w_expectedSeqNum wm'), wm')"
      and f: "frames \<noteq> []" "hd frames = (seqNum, data)"
      and c: "consecutiveFrom (w_expectedSeqNum wm) (map fst frames)"
      and l: "length frames \<le> 16"
      and e': "w_expectedSeqNum wm' = (w_expectedSeqNum wm + length frames) mod 16"
      and cl: "\<forall>q \<in> set (map fst frames). js_get (w_receiveBuffer wm') q = Null"
      and st: "js_get (w_receiveBuffer wm') (w_expectedSeqNum wm') = Null"
      and pay: "\<forall>(q, d) \<in> set frames.
                  if q = seqNum then d = data else js_get (w_receiveBuffer wm) q = Filled d"
      by blast
    from c e have m: "map fst frames
        = map (\<lambda>i. (w_expectedSeqNum wm + i) mod 16) [0..<length frames]"
      by (simp add: consecutiveFrom_map)
    have d: "distinct (map fst frames)"
      by (subst m) (rule distinct_consecutive [OF l])
    have "\<exists>fr. Delivered frames (w_expectedSeqNum wm') = Delivered fr (w_expectedSeqNum wm')
                       \<and> fr \<noteq> [] \<and> hd fr = (seqNum, data)
                       \<and> map fst fr
                           = map (\<lambda>i. (w_expectedSeqNum wm + i) mod 16) [0..<length fr]
                       \<and> distinct (map fst fr)
                       \<and> w_expectedSeqNum wm' = (w_expectedSeqNum wm + length fr) mod 16
                       \<and> (\<forall>q \<in> set (map fst fr). js_get (w_receiveBuffer wm') q = Null)
                       \<and> js_get (w_receiveBuffer wm') (w_expectedSeqNum wm') = Null
                       \<and> (\<forall>(q, d) \<in> set fr.
                              if q = seqNum then d = data
                              else js_get (w_receiveBuffer wm) q = Filled d)"
      by (intro exI [of _ frames] conjI refl f m d e' cl st pay)
    then show ?thesis
      unfolding if_P [OF True]
      by (intro exI [of _ "Delivered frames (w_expectedSeqNum wm')"] exI [of _ wm'] conjI r)
  next
    case False
    from receiveFrame_buffered [OF assms(1) _ False, of data] h
    show ?thesis using False by auto
  qed
next
  fix fs :: "(nat \<times> buffer) list"
  assume "\<forall>(q, d) \<in> set fs. q < 16"
  from assms have e: "w_expectedSeqNum wm < 16" by (simp add: receiver_ok_def)
  from receiveAll_spec [OF assms \<open>\<forall>(q, d) \<in> set fs. q < 16\<close>] e
  show "\<exists>del wm'. receiveAll fs wm = Inr (del, wm')
               \<and> map fst del = map (\<lambda>i. (w_expectedSeqNum wm + i) mod 16) [0..<length del]
               \<and> w_expectedSeqNum wm' = (w_expectedSeqNum wm + length del) mod 16"
    by (auto simp: consecutiveFrom_map)
qed

text \<open>
  Claim C2, on the code. In the window manager of a data link layer, which has the
  layer's listener on \<open>frames_delivered\<close>, \<open>receiveFrame\<close> on the expected frame does
  not return \<open>Delivered\<close>: it throws a \<open>TypeError\<close> out of \<open>emit\<close>. By then between 1
  and 16 frames have been taken out of the buffer, the slot of the frame is cleared, the
  expected number has advanced past them, and the \<open>frames_delivered\<close> event with their
  count is the last one recorded.
\<close>

theorem C2_in_order_frame_throws_in_the_layer:
  assumes "receiver_ok wm" "w_framesDeliveredListeners wm = DeliverToNetworkLayer # ls"
    "seqNum = w_expectedSeqNum wm" "0 < w_windowSize wm"
  shows "\<exists>wm' k lastSeqNum.
           receiveFrame seqNum data wm = Inl (TypeError, wm')
           \<and> 1 \<le> k \<and> k \<le> 16
           \<and> w_expectedSeqNum wm' = (w_expectedSeqNum wm + k) mod 16
           \<and> js_get (w_receiveBuffer wm') seqNum = Null
           \<and> w_events wm' = w_events wm
                @ [FramesDelivered k (Some seqNum) (Some lastSeqNum) (w_expectedSeqNum wm')]"
proof -
  from receiveFrame_expected_core [OF assms(1,3,4), of data]
  obtain frames wm' where
    r: "receiveFrame seqNum data wm
             = (if w_framesDeliveredListeners wm = []
                then Inr (Delivered frames (w_expectedSeqNum wm'), wm')
                else Inl (TypeError, wm'))"
    and ne: "frames \<noteq> []" and hd: "hd frames = (seqNum, data)"
    and l: "length frames \<le> 16"
    and e': "w_expectedSeqNum wm' = (w_expectedSeqNum wm + length frames) mod 16"
    and cl: "\<forall>q \<in> set (map fst frames). js_get (w_receiveBuffer wm') q = Null"
    and ev: "w_events wm' = w_events wm
                @ [FramesDelivered (length frames) (Some seqNum)
                     (Some (fst (frames ! (length frames - 1)))) (w_expectedSeqNum wm')]"
    by blast
  from r assms(2) have r': "receiveFrame seqNum data wm = Inl (TypeError, wm')"
    by simp
  from ne have k1: "1 \<le> length frames" by (cases frames) simp_all
  from ne hd have "seqNum \<in> set (map fst frames)" by (cases frames) auto
  with cl have c: "js_get (w_receiveBuffer wm') seqNum = Null" by blast
  show ?thesis
    by (intro exI [of _ wm'] exI [of _ "length frames"]
          exI [of _ "fst (frames ! (length frames - 1))"] conjI r' k1 l e' c ev)
qed

theorem C2_in_order_frame_throws_in_the_layer_witness:
  "receiver_ok (windowManager new_DataLinkLayer)
   \<and> w_framesDeliveredListeners (windowManager new_DataLinkLayer) = DeliverToNetworkLayer # []
   \<and> 0 = w_expectedSeqNum (windowManager new_DataLinkLayer)
   \<and> 0 < w_windowSize (windowManager new_DataLinkLayer)
   \<and> (\<exists>wm' k lastSeqNum.
         receiveFrame 0 [0x41] (windowManager new_DataLinkLayer) = Inl (TypeError, wm')
         \<and> 1 \<le> k \<and> k \<le> 16
         \<and> w_expectedSeqNum wm' = (w_expectedSeqNum (windowManager new_DataLinkLayer) + k) mod 16
         \<and> js_get (w_receiveBuffer wm') 0 = Null
         \<and> w_events wm' = w_events (windowManager new_DataLinkLayer)
              @ [FramesDelivered k (Some 0) (Some lastSeqNum) (w_expectedSeqNum wm')])"
proof -
  have a: "receiver_ok (windowManager new_DataLinkLayer)"
    by (simp add: receiver_ok_def new_DataLinkLayer_def new_WindowManager_def)
  have b: "w_framesDeliveredListeners (windowManager new_DataLinkLayer)
             = DeliverToNetworkLayer # []"
    by (simp add: new_DataLinkLayer_def)
  have c: "0 = w_expectedSeqNum (windowManager new_DataLinkLayer)"
    by (simp add: new_DataLinkLayer_def new_WindowManager_def)
  have d: "0 < w_windowSize (windowManager new_DataLinkLayer)"
    by (simp add: new_DataLinkLayer_def new_WindowManager_def WINDOW_SIZE_def)
  from C2_in_order_frame_throws_in_the_layer [OF a b c d, of "[0x41]"]
  show ?thesis
    using a b c d by blast
qed

section \<open>Properties of the acknowledgement engine and the layer\<close>

lemma DATA_in_FrameType: "DATA \<in> set FrameType_values"
  by (simp add: FrameType_values_def)

lemma createDataFrame_valid:
  assumes "seqNum < 16" "length data \<le> 1024"
  shows "createDataFrame seqNum data
           = Inr (FLAG # bitStuff (addCrc (of_nat DATA # of_nat seqNum # data)) @ [FLAG])"
  using buildFrame_valid [OF DATA_in_FrameType, of "int seqNum" data] assms
  by (simp add: createDataFrame_def MAX_DATA_def)

lemma getNextSeqNum_canSend:
  "canSend wm \<Longrightarrow> fst (getNextSeqNum wm) = Some (w_nextSeqNum wm)"
  by (simp add: getNextSeqNum_def Let_def)

lemma registerPendingAck_pending:
  "pendingAcks (registerPendingAck seqNum frame cb am) =
     (pendingAcks am)(seqNum \<mapsto> \<lparr>p_frame = frame, p_retries = 0,
                                   p_timeout = a_nextTimer am, p_retransmitCallback = cb\<rparr>)"
  by (simp add: registerPendingAck_def setAckTimeout_def clearTimeout_def am_emit_def Let_def
        split: option.split)

lemma registerPendingAck_timers:
  "a_timers (registerPendingAck seqNum frame cb am) (a_nextTimer am) = Some (seqNum, cb)"
  by (simp add: registerPendingAck_def setAckTimeout_def clearTimeout_def am_emit_def Let_def
        split: option.split)

lemma sendDataFrame_Some:
  assumes "sendDataFrame data dll0 = Inr (Some seqNum, dll)"
  shows "\<exists>frame. createDataFrame seqNum data = Inr frame
           \<and> d_transmitted dll = d_transmitted dll0 @ [frame]
           \<and> ackManager dll = registerPendingAck seqNum frame (Some SendToPhysical) (ackManager dll0)
           \<and> physicalLayerCallback dll"
  using assms
  by (auto simp: sendDataFrame_def sendFrameToPhysical_def Let_def
        split: prod.splits option.splits sum.splits if_splits)

lemma sendDataFrame_armed:
  assumes "sendDataFrame data dll0 = Inr (Some seqNum, dll)"
  shows "\<exists>frame. createDataFrame seqNum data = Inr frame
           \<and> d_transmitted dll = d_transmitted dll0 @ [frame] \<and> armed seqNum frame 0 dll"
proof -
  from sendDataFrame_Some [OF assms] obtain frame where
    f: "createDataFrame seqNum data = Inr frame"
    and t: "d_transmitted dll = d_transmitted dll0 @ [frame]"
    and a: "ackManager dll = registerPendingAck seqNum frame (Some SendToPhysical) (ackManager dll0)"
    and p: "physicalLayerCallback dll"
    by blast
  have "armed seqNum frame 0 dll"
    unfolding armed_def a
    using p by (simp add: registerPendingAck_pending registerPendingAck_timers)
  with f t show ?thesis by blast
qed

lemma timeoutOf_retry:
  assumes "armed seqNum frame k dll" "k + 1 < MAX_RETRIES"
  shows "\<exists>dll'. timeoutOf seqNum dll = Inr dll' \<and> armed seqNum frame (k + 1) dll'
           \<and> d_transmitted dll' = d_transmitted dll @ [frame]
           \<and> a_events (ackManager dll') = a_events (ackManager dll)
                @ [AckTimeout seqNum (k + 1) MAX_RETRIES, FrameRetransmitting seqNum (k + 2)]"
proof -
  from assms(1) obtain p cb where phys: "physicalLayerCallback dll"
    and p: "pendingAcks (ackManager dll) seqNum = Some p"
    and pf: "p_frame p = frame" "p_retries p = k" "p_retransmitCallback p = Some SendToPhysical"
    and tm: "a_timers (ackManager dll) (p_timeout p) = Some (seqNum, cb)"
    by (auto simp: armed_def)
  show ?thesis
    using assms(2) phys p pf tm
    by (simp add: timeoutOf_def ackTimerFires_def fireTimer_def handleAckTimeout_def
          retransmitFrame_def setAckTimeout_def clearTimeout_def am_emit_def Let_def
          sendFrameToPhysical_def armed_def)
qed

lemma timeoutOf_fail:
  assumes "armed seqNum frame k dll" "k + 1 = MAX_RETRIES"
  shows "\<exists>dll'. timeoutOf seqNum dll = Inr dll'
           \<and> pendingAcks (ackManager dll') seqNum = None
           \<and> d_transmitted dll' = d_transmitted dll
           \<and> a_events (ackManager dll') = a_events (ackManager dll)
                @ [AckTimeout seqNum MAX_RETRIES MAX_RETRIES, FrameFailed seqNum MAX_RETRIES]
           \<and> (\<forall>h. a_timers (ackManager dll') h \<noteq> None \<longrightarrow>
                  a_timers (ackManager dll') h = a_timers (ackManager dll) h)"
proof -
  from assms(1) obtain p cb where phys: "physicalLayerCallback dll"
    and p: "pendingAcks (ackManager dll) seqNum = Some p"
    and pf: "p_frame p = frame" "p_retries p = k" "p_retransmitCallback p = Some SendToPhysical"
    and tm: "a_timers (ackManager dll) (p_timeout p) = Some (seqNum, cb)"
    by (auto simp: armed_def)
  show ?thesis
    using assms(2) phys p pf tm
    by (simp add: timeoutOf_def ackTimerFires_def fireTimer_def handleAckTimeout_def
          am_emit_def Let_def)
qed

lemma timeouts_idle:
  "pendingAcks (ackManager dll) seqNum = None \<Longrightarrow> timeouts_in_a_row n seqNum dll = Inr dll"
  by (induction n) (simp_all add: timeoutOf_def)

lemma timeouts_run:
  assumes "sendDataFrame data dll0 = Inr (Some seqNum, dll)"
  shows "\<exists>frame dll1 dll2 dll3.
           createDataFrame seqNum data = Inr frame
           \<and> d_transmitted dll = d_transmitted dll0 @ [frame]
           \<and> timeouts_in_a_row 1 seqNum dll = Inr dll1
           \<and> d_transmitted dll1 = d_transmitted dll0 @ [frame, frame]
           \<and> map_option p_retries (pendingAcks (ackManager dll1) seqNum) = Some 1
           \<and> timeouts_in_a_row 2 seqNum dll = Inr dll2
           \<and> d_transmitted dll2 = d_transmitted dll0 @ [frame, frame, frame]
           \<and> map_option p_retries (pendingAcks (ackManager dll2) seqNum) = Some 2
           \<and> (\<forall>n \<ge> 3. timeouts_in_a_row n seqNum dll = Inr dll3)
           \<and> d_transmitted dll3 = d_transmitted dll0 @ [frame, frame, frame]
           \<and> pendingAcks (ackManager dll3) seqNum = None
           \<and> a_events (ackManager dll3) = a_events (ackManager dll)
                @ [AckTimeout seqNum 1 3, FrameRetransmitting seqNum 2,
                   AckTimeout seqNum 2 3, FrameRetransmitting seqNum 3,
                   AckTimeout seqNum 3 3, FrameFailed seqNum 3]"
proof -
  from sendDataFrame_armed [OF assms] obtain frame where
    f: "createDataFrame seqNum data = Inr frame"
    and t0: "d_transmitted dll = d_transmitted dll0 @ [frame]"
    and a0: "armed seqNum frame 0 dll"
    by blast
  have "\<exists>dll'. timeoutOf seqNum dll = Inr dll' \<and> armed seqNum frame 1 dll'
           \<and> d_transmitted dll' = d_transmitted dll @ [frame]
           \<and> a_events (ackManager dll') = a_events (ackManager dll)
                @ [AckTimeout seqNum 1 MAX_RETRIES, FrameRetransmitting seqNum 2]"
    using timeoutOf_retry [OF a0] by (simp add: MAX_RETRIES_def eval_nat_numeral)
  then obtain dll1 where
    s1: "timeoutOf seqNum dll = Inr dll1" and a1: "armed seqNum frame 1 dll1"
    and t1: "d_transmitted dll1 = d_transmitted dll @ [frame]"
    and e1: "a_events (ackManager dll1) = a_events (ackManager dll)
                @ [AckTimeout seqNum 1 MAX_RETRIES, FrameRetransmitting seqNum 2]"
    by blast
  have "\<exists>dll'. timeoutOf seqNum dll1 = Inr dll' \<and> armed seqNum frame 2 dll'
           \<and> d_transmitted dll' = d_transmitted dll1 @ [frame]
           \<and> a_events (ackManager dll') = a_events (ackManager dll1)
                @ [AckTimeout seqNum 2 MAX_RETRIES, FrameRetransmitting seqNum 3]"
    using timeoutOf_retry [OF a1] by (simp add: MAX_RETRIES_def eval_nat_numeral)
  then obtain dll2 where
    s2: "timeoutOf seqNum dll1 = Inr dll2" and a2: "armed seqNum frame 2 dll2"
    and t2: "d_transmitted dll2 = d_transmitted dll1 @ [frame]"
    and e2: "a_events (ackManager dll2) = a_events (ackManager dll1)
                @ [AckTimeout seqNum 2 MAX_RETRIES, FrameRetransmitting seqNum 3]"
    by blast
  have "\<exists>dll'. timeoutOf seqNum dll2 = Inr dll'
           \<and> pendingAcks (ackManager dll') seqNum = None
           \<and> d_transmitted dll' = d_transmitted dll2
           \<and> a_events (ackManager dll') = a_events (ackManager dll2)
                @ [AckTimeout seqNum MAX_RETRIES MAX_RETRIES, FrameFailed seqNum MAX_RETRIES]"
    using timeoutOf_fail [OF a2] by (simp add: MAX_RETRIES_def eval_nat_numeral) blast
  then obtain dll3 where
    s3: "timeoutOf seqNum dll2 = Inr dll3"
    and p3: "pendingAcks (ackManager dll3) seqNum = None"
    and t3: "d_transmitted dll3 = d_transmitted dll2"
    and e3: "a_events (ackManager dll3) = a_events (ackManager dll2)
                @ [AckTimeout seqNum MAX_RETRIES MAX_RETRIES, FrameFailed seqNum MAX_RETRIES]"
    by blast
  have r1: "timeouts_in_a_row 1 seqNum dll = Inr dll1"
    by (simp add: s1)
  have r2: "timeouts_in_a_row 2 seqNum dll = Inr dll2"
    by (simp add: numeral_2_eq_2 s1 s2)
  have r3: "timeouts_in_a_row n seqNum dll = Inr dll3" if "3 \<le> n" for n
  proof -
    from that obtain m where n: "n = Suc (Suc (Suc m))"
      by (metis add_Suc_right le_Suc_ex numeral_3_eq_3 add_Suc)
    show ?thesis
      by (simp add: n s1 s2 s3 timeouts_idle [OF p3])
  qed
  have q1: "map_option p_retries (pendingAcks (ackManager dll1) seqNum) = Some 1"
    using a1 by (auto simp: armed_def)
  have q2: "map_option p_retries (pendingAcks (ackManager dll2) seqNum) = Some 2"
    using a2 by (auto simp: armed_def)
  show ?thesis
    apply (rule exI [of _ frame])
    apply (rule exI [of _ dll1])
    apply (rule exI [of _ dll2])
    apply (rule exI [of _ dll3])
    using f t0 r1 r2 r3 q1 q2 p3
    by (simp add: t1 t2 t3 e1 e2 e3 MAX_RETRIES_def)
qed

lemma seqNumDiff_0_0: "seqNumDiff 0 0 = 0"
  by (simp add: seqNumDiff_self)

lemma one_sent_eq:
  "sendDataFrame [0x41] (setPhysicalLayer new_DataLinkLayer) = Inr (Some 0, one_sent)"
proof -
  have "\<exists>dll. sendDataFrame [0x41] (setPhysicalLayer new_DataLinkLayer) = Inr (Some 0, dll)"
    by (simp add: sendDataFrame_def setPhysicalLayer_def new_DataLinkLayer_def
          getNextSeqNum_def Let_def createDataFrame_valid sendFrameToPhysical_def
          canSend_def new_WindowManager_def seqNumDiff_0_0 WINDOW_SIZE_def)
  then obtain dll where d: "sendDataFrame [0x41] (setPhysicalLayer new_DataLinkLayer) = Inr (Some 0, dll)"
    by blast
  then have "one_sent = dll"
    by (simp add: one_sent_def)
  with d show ?thesis by simp
qed

lemma one_sent_transmitted: "length (d_transmitted one_sent) = 1"
  using sendDataFrame_Some [OF one_sent_eq]
  by (auto simp: setPhysicalLayer_def new_DataLinkLayer_def)

text \<open>
  Claim C3, on the code. After \<open>sendDataFrame\<close> has registered and transmitted a
  frame, and when only its retransmission timeouts fire: the first and the second timeout
  retransmit it, the third removes the entry and emits \<open>FrameFailed\<close> with 3 retries,
  and later timeouts do nothing. The frame is transmitted exactly 3 times in all, the
  original and 2 retransmissions: one transmission fewer than the \<open>MAX_RETRIES + 1 = 4\<close>
  of the claim, and one retransmission fewer than the 3 that \<open>MAX_RETRIES\<close> is
  documented to allow.
\<close>

theorem C3_timeouts_only_three_transmissions:
  assumes "sendDataFrame data dll0 = Inr (Some seqNum, dll)"
  shows "\<exists>frame dll1 dll2 dll3.
           createDataFrame seqNum data = Inr frame
           \<and> d_transmitted dll = d_transmitted dll0 @ [frame]
           \<and> timeouts_in_a_row 1 seqNum dll = Inr dll1
           \<and> d_transmitted dll1 = d_transmitted dll0 @ [frame, frame]
           \<and> map_option p_retries (pendingAcks (ackManager dll1) seqNum) = Some 1
           \<and> timeouts_in_a_row 2 seqNum dll = Inr dll2
           \<and> d_transmitted dll2 = d_transmitted dll0 @ [frame, frame, frame]
           \<and> map_option p_retries (pendingAcks (ackManager dll2) seqNum) = Some 2
           \<and> (\<forall>n \<ge> 3. timeouts_in_a_row n seqNum dll = Inr dll3)
           \<and> d_transmitted dll3 = d_transmitted dll0 @ [frame, frame, frame]
           \<and> pendingAcks (ackManager dll3) seqNum = None
           \<and> a_events (ackManager dll3) = a_events (ackManager dll)
                @ [AckTimeout seqNum 1 3, FrameRetransmitting seqNum 2,
                   AckTimeout seqNum 2 3, FrameRetransmitting seqNum 3,
                   AckTimeout seqNum 3 3, FrameFailed seqNum 3]"
  using assms by (rule timeouts_run)

theorem C3_timeouts_only_three_transmissions_witness:
  "sendDataFrame [0x41] (setPhysicalLayer new_DataLinkLayer) = Inr (Some 0, one_sent)
     \<and> (\<exists>frame dll3.
           createDataFrame 0 [0x41] = Inr frame
           \<and> d_transmitted one_sent = [frame]
           \<and> timeouts_in_a_row 3 0 one_sent = Inr dll3
           \<and> d_transmitted dll3 = [frame, frame, frame]
           \<and> pendingAcks (ackManager dll3) 0 = None)"
proof -
  from C3_timeouts_only_three_transmissions [OF one_sent_eq]
  obtain frame dll3 where "createDataFrame 0 [0x41] = Inr frame"
    and "d_transmitted one_sent = d_transmitted (setPhysicalLayer new_DataLinkLayer) @ [frame]"
    and "\<forall>n \<ge> 3. timeouts_in_a_row n 0 one_sent = Inr dll3"
    and "d_transmitted dll3 = d_transmitted (setPhysicalLayer new_DataLinkLayer) @ [frame, frame, frame]"
    and "pendingAcks (ackManager dll3) 0 = None"
    by blast
  then show ?thesis
    using one_sent_eq
    by (auto simp: setPhysicalLayer_def new_DataLinkLayer_def)
qed


lemma NAK_in_FrameType: "NAK \<in> set FrameType_values"
  by (simp add: FrameType_values_def)

lemma parsed_control_frame:
  assumes "type \<in> set FrameType_values" "n < 16"
  shows "\<exists>raw f st. buildFrame type (int n) [] = Inr raw \<and> parseFrame raw = Inr (f, st)
           \<and> f_type f = type \<and> f_seqNum f = n \<and> f_data f = []"
proof -
  have "uint ((of_int (int n) :: byte) AND 0x0f) = int n"
    using seq_byte [of "int n"] assms(2) by simp
  then have "nat (uint ((of_nat n :: byte) AND 0x0f)) = n"
    by simp
  then have "unat ((of_nat n :: byte) AND 0x0f) = n"
    by (simp only: unat_eq_nat_uint)
  then show ?thesis
    using assms
    by (simp add: buildFrame_valid MAX_DATA_def parseFrame_built FrameType_byte)
qed


lemma parsedNak_fields: "n < 16 \<Longrightarrow> f_type (parsedNak n) = NAK \<and> f_seqNum (parsedNak n) = n"
  using parsed_control_frame [OF NAK_in_FrameType, of n]
  by (auto simp: parsedNak_def createNakFrame_def)








lemma nak_step:
  assumes "pendingAcks (ackManager dll) (f_seqNum frame) = Some p" "physicalLayerCallback dll"
  shows "\<exists>dll'. processNakFrame frame dll = Inr dll'
           \<and> d_transmitted dll' = d_transmitted dll
                @ (case p_retransmitCallback p of None \<Rightarrow> [] | Some cb \<Rightarrow> [p_frame p])
           \<and> pendingAcks (ackManager dll')
               = (pendingAcks (ackManager dll))
                   (f_seqNum frame \<mapsto> p\<lparr>p_timeout := a_nextTimer (ackManager dll)\<rparr>)
           \<and> map_option p_retries (pendingAcks (ackManager dll') (f_seqNum frame))
               = Some (p_retries p)
           \<and> retransmissions (a_stats (ackManager dll'))
               = retransmissions (a_stats (ackManager dll)) + 1
           \<and> a_timers (ackManager dll')
               = ((a_timers (ackManager dll))(p_timeout p := None))
                   (a_nextTimer (ackManager dll) \<mapsto> (f_seqNum frame, p_retransmitCallback p))
           \<and> a_nextTimer (ackManager dll') = a_nextTimer (ackManager dll) + 1
           \<and> physicalLayerCallback dll'"
proof (cases "p_retransmitCallback p")
  case None
  with assms show ?thesis
    by (simp add: processNakFrame_def handleReceivedNak_def retransmitFrame_def
          setAckTimeout_def clearTimeout_def am_emit_def Let_def)
next
  case (Some cb)
  then have "p_retransmitCallback p = Some SendToPhysical"
    by (cases cb) simp
  with assms show ?thesis
    by (simp add: processNakFrame_def handleReceivedNak_def retransmitFrame_def
          setAckTimeout_def clearTimeout_def am_emit_def Let_def sendFrameToPhysical_def)
qed

lemma nak_armed:
  assumes "armed seqNum frame k dll" "f_seqNum nak = seqNum"
  shows "\<exists>dll'. processNakFrame nak dll = Inr dll' \<and> armed seqNum frame k dll'
           \<and> d_transmitted dll' = d_transmitted dll @ [frame]"
proof -
  from assms(1) obtain p cb where phys: "physicalLayerCallback dll"
    and p: "pendingAcks (ackManager dll) seqNum = Some p"
    and pf: "p_frame p = frame" "p_retries p = k" "p_retransmitCallback p = Some SendToPhysical"
    by (auto simp: armed_def)
  from nak_step [of dll nak p] p phys assms(2)
  obtain dll' where r: "processNakFrame nak dll = Inr dll'"
    and t: "d_transmitted dll' = d_transmitted dll
                @ (case p_retransmitCallback p of None \<Rightarrow> [] | Some cb \<Rightarrow> [p_frame p])"
    and q: "pendingAcks (ackManager dll')
               = (pendingAcks (ackManager dll))
                   (seqNum \<mapsto> p\<lparr>p_timeout := a_nextTimer (ackManager dll)\<rparr>)"
    and tm: "a_timers (ackManager dll')
               = ((a_timers (ackManager dll))(p_timeout p := None))
                   (a_nextTimer (ackManager dll) \<mapsto> (seqNum, p_retransmitCallback p))"
    and ph: "physicalLayerCallback dll'"
    by auto
  have "armed seqNum frame k dll'"
    unfolding armed_def q tm using ph pf by simp
  with r t pf show ?thesis by simp
qed

lemma one_sent_armed:
  "\<exists>frame. d_transmitted one_sent = [frame] \<and> armed 0 frame 0 one_sent"
  using sendDataFrame_armed [OF one_sent_eq]
  by (auto simp: setPhysicalLayer_def new_DataLinkLayer_def)

lemma four_naks:
  "\<exists>frame dll'. naks_in_a_row 4 (parsedNak 0) one_sent = Inr dll'
     \<and> d_transmitted dll' = [frame, frame, frame, frame, frame] \<and> armed 0 frame 0 dll'"
proof -
  from one_sent_armed obtain frame where t0: "d_transmitted one_sent = [frame]"
    and a0: "armed 0 frame 0 one_sent" by blast
  have s: "f_seqNum (parsedNak 0) = 0" using parsedNak_fields [of 0] by simp
  from nak_armed [OF a0 s] obtain d1 where r1: "processNakFrame (parsedNak 0) one_sent = Inr d1"
    and a1: "armed 0 frame 0 d1" and t1: "d_transmitted d1 = d_transmitted one_sent @ [frame]"
    by blast
  from nak_armed [OF a1 s] obtain d2 where r2: "processNakFrame (parsedNak 0) d1 = Inr d2"
    and a2: "armed 0 frame 0 d2" and t2: "d_transmitted d2 = d_transmitted d1 @ [frame]"
    by blast
  from nak_armed [OF a2 s] obtain d3 where r3: "processNakFrame (parsedNak 0) d2 = Inr d3"
    and a3: "armed 0 frame 0 d3" and t3: "d_transmitted d3 = d_transmitted d2 @ [frame]"
    by blast
  from nak_armed [OF a3 s] obtain d4 where r4: "processNakFrame (parsedNak 0) d3 = Inr d4"
    and a4: "armed 0 frame 0 d4" and t4: "d_transmitted d4 = d_transmitted d3 @ [frame]"
    by blast
  have "naks_in_a_row 4 (parsedNak 0) one_sent = Inr d4"
    by (simp add: eval_nat_numeral r1 r2 r3 r4)
  moreover have "d_transmitted d4 = [frame, frame, frame, frame, frame]"
    by (simp add: t0 t1 t2 t3 t4)
  ultimately show ?thesis using a4 by blast
qed

text \<open>
  The two runs on the first frame of a fresh layer: after three timeouts the frame has
  failed with 3 transmissions, not 4; and four NAKs in a row give 5 transmissions of a
  frame that is still pending with 0 retries, since a retransmission on a NAK is not
  counted as a retry.
\<close>

theorem C3_four_transmissions_counterexample:
  "\<not> isl (timeouts_in_a_row 3 0 one_sent)
   \<and> length (d_transmitted (projr (timeouts_in_a_row 3 0 one_sent))) = 3
   \<and> pendingAcks (ackManager (projr (timeouts_in_a_row 3 0 one_sent))) 0 = None
   \<and> last (a_events (ackManager (projr (timeouts_in_a_row 3 0 one_sent)))) = FrameFailed 0 3
   \<and> \<not> isl (naks_in_a_row 4 (parsedNak 0) one_sent)
   \<and> length (d_transmitted (projr (naks_in_a_row 4 (parsedNak 0) one_sent))) = 5
   \<and> map_option p_retries
        (pendingAcks (ackManager (projr (naks_in_a_row 4 (parsedNak 0) one_sent))) 0) = Some 0"
proof -
  from timeouts_run [OF one_sent_eq] obtain frame dll3 where
    r: "\<forall>n \<ge> 3. timeouts_in_a_row n 0 one_sent = Inr dll3"
    and t: "d_transmitted dll3 = d_transmitted (setPhysicalLayer new_DataLinkLayer) @ [frame, frame, frame]"
    and p: "pendingAcks (ackManager dll3) 0 = None"
    and e: "a_events (ackManager dll3) = a_events (ackManager one_sent)
                @ [AckTimeout 0 1 3, FrameRetransmitting 0 2,
                   AckTimeout 0 2 3, FrameRetransmitting 0 3,
                   AckTimeout 0 3 3, FrameFailed 0 3]"
    by blast
  from r have r3: "timeouts_in_a_row 3 0 one_sent = Inr dll3" by simp
  from four_naks obtain f dll' where n: "naks_in_a_row 4 (parsedNak 0) one_sent = Inr dll'"
    and nt: "d_transmitted dll' = [f, f, f, f, f]" and na: "armed 0 f 0 dll'"
    by blast
  from na have "map_option p_retries (pendingAcks (ackManager dll') 0) = Some 0"
    by (auto simp: armed_def)
  then show ?thesis
    by (simp add: r3 t p e n nt setPhysicalLayer_def new_DataLinkLayer_def)
qed







lemma built_control_byte:
  "(FLAG # bitStuff (addCrc (c # s # data)) @ [FLAG]) ! 1
     = (if c = FLAG \<or> c = ESC then ESC else c)"
  by (simp add: bitStuff_eq_loop addCrc_def Let_def bitStuff_Cons del: bitStuff_loop.simps)

lemma disc_reply:
  assumes "c_state cm = CONNECTED" "c_sendCallback cm" "c_localSeqNum cm < 16"
  shows "\<exists>reply cm' f st.
           handleDisconnectionRequest frame cm = Inr (True, cm')
           \<and> c_sent cm' = c_sent cm @ [reply]
           \<and> createDataFrame (c_localSeqNum cm) DISC_ACK_text = Inr reply
           \<and> reply ! 1 = 0x01
           \<and> parseFrame reply = Inr (f, st)
           \<and> f_type f = DATA \<and> f_type f \<noteq> DISC_ACK \<and> f_data f = DISC_ACK_text
           \<and> c_state cm' = CONNECTED
           \<and> c_state (fireDisconnectTimer cm') = DISCONNECTED"
proof -
  let ?reply = "FLAG # bitStuff (addCrc (of_nat DATA # of_nat (c_localSeqNum cm) # DISC_ACK_text))
                  @ [FLAG]"
  have len: "length DISC_ACK_text \<le> 1024" by (simp add: DISC_ACK_text_def)
  have cr: "createDataFrame (c_localSeqNum cm) DISC_ACK_text = Inr ?reply"
    by (rule createDataFrame_valid [OF assms(3) len])
  have b: "?reply ! 1 = 0x01"
    unfolding built_control_byte by (simp add: DATA_def FLAG_def ESC_def)
  have u: "unat (of_nat DATA :: byte) = DATA"
    by (rule FrameType_byte [OF DATA_in_FrameType])
  have p: "\<exists>f st. parseFrame ?reply = Inr (f, st) \<and> f_type f = DATA \<and> f_data f = DISC_ACK_text"
    unfolding parseFrame_built u using DATA_in_FrameType by simp
  then obtain f st where pf: "parseFrame ?reply = Inr (f, st)" "f_type f = DATA"
    "f_data f = DISC_ACK_text" by blast
  have ne: "f_type f \<noteq> DISC_ACK" using pf(2) by (simp add: DATA_def DISC_ACK_def)
  define cm' where "cm' = cm_emit (DisconnectionRequest (f_seqNum frame))
      (cm\<lparr>c_sent := c_sent cm @ [?reply], c_timers := c_timers cm @ [DisconnectAfter100ms]\<rparr>)"
  have h: "handleDisconnectionRequest frame cm = Inr (True, cm')"
    using assms by (simp add: handleDisconnectionRequest_def cr Let_def cm'_def)
  have s: "c_sent cm' = c_sent cm @ [?reply]" "c_state cm' = CONNECTED"
    using assms by (simp_all add: cm'_def cm_emit_def)
  have d: "c_state (fireDisconnectTimer cm') = DISCONNECTED"
    by (simp add: fireDisconnectTimer_def cm'_def cm_emit_def handleDisconnection_def Let_def
          stopHeartbeat_def clearTimeouts_def)
  show ?thesis
    using h s cr b pf ne d by blast
qed

lemma CONN_ACK_in_FrameType: "CONN_ACK \<in> set FrameType_values"
  by (simp add: FrameType_values_def)

lemma connected_peer_state:
  "isl (acceptConnection 0 new_ConnectionManager) = False
   \<and> c_state connected_peer = CONNECTED \<and> c_sendCallback connected_peer
   \<and> c_localSeqNum connected_peer = 0 \<and> length (c_sent connected_peer) = 1"
proof -
  have "createConnectionAckFrame 0
          = Inr (FLAG # bitStuff (addCrc (of_nat CONN_ACK # of_int 0 # CONNECT_ACK_text)) @ [FLAG])"
    unfolding createConnectionAckFrame_def
    using buildFrame_valid [OF CONN_ACK_in_FrameType, of 0 CONNECT_ACK_text]
    by (simp add: CONNECT_ACK_text_def MAX_DATA_def)
  then show ?thesis
    by (simp add: connected_peer_def acceptConnection_def new_ConnectionManager_def Let_def
          handleConnectionEstablished_def clearTimeouts_def startHeartbeat_def stopHeartbeat_def
          cm_emit_def)
qed

text \<open>
  Claim C9, on the code. A connected peer with a send callback that receives a DISC
  request transmits one frame, the one \<open>createDataFrame\<close> builds around the text
  \<open>DISC_ACK\<close>: its control byte is \<open>0x01\<close> and it parses as a DATA frame, not a
  DISC_ACK frame. The peer is still connected then, and disconnected once the 100 ms
  timer has fired.
\<close>

theorem C9_disc_reply_is_a_data_frame:
  assumes "c_state cm = CONNECTED" "c_sendCallback cm" "c_localSeqNum cm < 16"
  shows "\<exists>reply cm' f st.
           handleDisconnectionRequest frame cm = Inr (True, cm')
           \<and> c_sent cm' = c_sent cm @ [reply]
           \<and> createDataFrame (c_localSeqNum cm) DISC_ACK_text = Inr reply
           \<and> reply ! 1 = 0x01
           \<and> parseFrame reply = Inr (f, st)
           \<and> f_type f = DATA \<and> f_type f \<noteq> DISC_ACK \<and> f_data f = DISC_ACK_text
           \<and> c_state cm' = CONNECTED
           \<and> c_state (fireDisconnectTimer cm') = DISCONNECTED"
  using assms by (rule disc_reply)

theorem C9_disc_reply_is_a_data_frame_witness:
  "c_state connected_peer = CONNECTED \<and> c_sendCallback connected_peer
   \<and> c_localSeqNum connected_peer < 16
   \<and> (\<exists>reply cm' f st.
         handleDisconnectionRequest parsedDisc connected_peer = Inr (True, cm')
         \<and> c_sent cm' = c_sent connected_peer @ [reply]
         \<and> reply ! 1 = 0x01
         \<and> parseFrame reply = Inr (f, st)
         \<and> f_type f = DATA
         \<and> c_state (fireDisconnectTimer cm') = DISCONNECTED)"
proof -
  have a: "c_state connected_peer = CONNECTED" and b: "c_sendCallback connected_peer"
    and c: "c_localSeqNum connected_peer < 16"
    using connected_peer_state by simp_all
  from C9_disc_reply_is_a_data_frame [OF a b c, of parsedDisc]
  show ?thesis
    using a b c by blast
qed

end
